theory Spec2Isabelle
  imports Main "HOL-Library.AList"
begin

section \<open>Requests, estimates and rejection reasons\<close>

text \<open>
  The data of \<^verbatim>\<open>src/unnamed/part_001\<close> (the LLM bulkhead). Token counts are
  JavaScript numbers; they are modelled as unbounded integers, which is exact for the
  integers the estimators return (below \<open>2^53\<close>).
\<close>

text \<open>
  At run time a message is a JavaScript object: here, its own enumerable properties in
  the order in which JavaScript enumerates them. The type \<^verbatim>\<open>LLMMessage\<close>
  (lines 22-25) says that it has the properties \<^verbatim>\<open>role\<close> and \<^verbatim>\<open>content\<close>, both
  strings; it fixes neither their order nor the absence of further properties. A
  property value is a string or, as an example of a value that \<^verbatim>\<open>JSON.stringify\<close>
  refuses, a \<^verbatim>\<open>BigInt\<close>. \<open>role\<close> and \<open>content\<close> read the two properties of the
  type; where the property is no string (which the type excludes) they give the empty
  string.
\<close>

datatype JSValue = JSString string | JSBigInt int

type_synonym LLMMessage = "(string \<times> JSValue) list"

definition role :: "LLMMessage \<Rightarrow> string" where
  "role m = (case map_of m ''role'' of Some (JSString s) \<Rightarrow> s | _ \<Rightarrow> [])"

definition content :: "LLMMessage \<Rightarrow> string" where
  "content m = (case map_of m ''content'' of Some (JSString s) \<Rightarrow> s | _ \<Rightarrow> [])"

record LLMRequest =
  messages :: "LLMMessage list"
  max_tokens :: "int option"

record TokenEstimate =
  input :: int
  maxOutput :: int

type_synonym TokenEstimator = "LLMRequest \<Rightarrow> TokenEstimate"

text \<open>\<^verbatim>\<open>BaseRejectReason\<close> is the reason type of the imported concurrency gate;
  \<^verbatim>\<open>LLMRejectReason = BaseRejectReason | "budget_limit"\<close>.\<close>

datatype BaseRejectReason = concurrency_limit | queue_limit | timeout | aborted

datatype LLMRejectReason = Base BaseRejectReason | budget_limit

fun reason_string :: "LLMRejectReason \<Rightarrow> string" where
  "reason_string (Base concurrency_limit) = ''concurrency_limit''"
| "reason_string (Base queue_limit) = ''queue_limit''"
| "reason_string (Base timeout) = ''timeout''"
| "reason_string (Base aborted) = ''aborted''"
| "reason_string budget_limit = ''budget_limit''"

text \<open>The class \<^verbatim>\<open>LLMBulkheadRejectedError\<close> (lines 56-63) with its fields, and its
  constructor.\<close>

record RejectedError =
  code :: string
  reason :: LLMRejectReason
  name :: string
  message :: string

definition LLMBulkheadRejectedError :: "LLMRejectReason \<Rightarrow> RejectedError" where
  "LLMBulkheadRejectedError r =
     \<lparr> code = ''LLM_BULKHEAD_REJECTED'', reason = r,
       name = ''LLMBulkheadRejectedError'',
       message = ''LLM bulkhead rejected: '' @ reason_string r \<rparr>"

text \<open>A value that is thrown (or that a promise rejects with): an admission rejection
  of the bulkhead, or any other value \<open>'e\<close> (whatever the caller's work function or a
  token's \<^verbatim>\<open>release()\<close> throws).\<close>

datatype 'e thrown = Rejection RejectedError | OtherError 'e

text \<open>What a caller reads as \<^verbatim>\<open>err.code\<close> of a thrown value: the code of an
  \<^verbatim>\<open>LLMBulkheadRejectedError\<close>; of any other value, what \<open>code_of\<close> finds on it
  (\<open>None\<close> when it has no such property). Any object may carry any code.\<close>

definition thrown_code :: "('e \<Rightarrow> string option) \<Rightarrow> 'e thrown \<Rightarrow> string option" where
  "thrown_code code_of x =
     (case x of Rejection r \<Rightarrow> Some (code r) | OtherError e \<Rightarrow> code_of e)"

record AcquireOptions =
  signal :: "nat option"
  timeoutMs :: "int option"

section \<open>Presets and option resolution\<close>

record LLMBulkheadPreset =
  preset_maxQueue :: "int option"
  preset_timeoutMs :: "int option"

datatype Profile = interactive | batch | custom LLMBulkheadPreset

text \<open>\<^verbatim>\<open>PROFILES\<close> (lines 99-102).\<close>

fun PROFILES :: "Profile \<Rightarrow> LLMBulkheadPreset" where
  "PROFILES interactive = \<lparr> preset_maxQueue = Some 0, preset_timeoutMs = None \<rparr>"
| "PROFILES batch = \<lparr> preset_maxQueue = Some 20, preset_timeoutMs = Some 30000 \<rparr>"
| "PROFILES (custom p) = p"

text \<open>\<^verbatim>\<open>resolvePreset\<close> (lines 322-328): no profile gives the empty preset, a named
  profile its entry of \<^verbatim>\<open>PROFILES\<close>, a preset object itself.\<close>

definition resolvePreset :: "Profile option \<Rightarrow> LLMBulkheadPreset" where
  "resolvePreset profile =
     (case profile of
        None \<Rightarrow> \<lparr> preset_maxQueue = None, preset_timeoutMs = None \<rparr>
      | Some interactive \<Rightarrow> PROFILES interactive
      | Some batch \<Rightarrow> PROFILES batch
      | Some (custom p) \<Rightarrow> p)"

record TokenBudgetOptions =
  budget :: int
  budget_estimator :: "TokenEstimator option"
  outputCap :: "int option"

record LLMBulkheadOptions =
  model :: string
  maxConcurrent :: int
  opt_maxQueue :: "int option"
  opt_timeoutMs :: "int option"
  profile :: "Profile option"
  tokenBudget :: "TokenBudgetOptions option"
  deduplication :: "bool option"

text \<open>The nullish coalescing operator \<^verbatim>\<open>a ?? b\<close>.\<close>

definition nullish :: "'a option \<Rightarrow> 'a option \<Rightarrow> 'a option" where
  "nullish a b = (case a of Some x \<Rightarrow> Some x | None \<Rightarrow> b)"

text \<open>Lines 348-350: \<^verbatim>\<open>opts.maxQueue ?? preset.maxQueue ?? 0\<close> and
  \<^verbatim>\<open>opts.timeoutMs ?? preset.timeoutMs\<close>.\<close>

definition resolved_maxQueue :: "LLMBulkheadOptions \<Rightarrow> int" where
  "resolved_maxQueue opts =
     (case nullish (opt_maxQueue opts) (preset_maxQueue (resolvePreset (profile opts))) of
        Some q \<Rightarrow> q | None \<Rightarrow> 0)"

definition resolved_timeoutMs :: "LLMBulkheadOptions \<Rightarrow> int option" where
  "resolved_timeoutMs opts =
     nullish (opt_timeoutMs opts) (preset_timeoutMs (resolvePreset (profile opts)))"

section \<open>Estimators\<close>

definition DEFAULT_OUTPUT_CAP :: int where
  "DEFAULT_OUTPUT_CAP = 2048"

definition resolveMaxOutput :: "LLMRequest \<Rightarrow> int \<Rightarrow> int" where
  "resolveMaxOutput request fallback =
     (case max_tokens request of Some m \<Rightarrow> m | None \<Rightarrow> fallback)"

text \<open>\<^verbatim>\<open>naiveTokenEstimator\<close> (lines 206-215): \<^verbatim>\<open>Math.ceil(inputChars / 4.0)\<close>, the
  ceiling of the quotient, written with integer division.\<close>

definition naiveTokenEstimator :: TokenEstimator where
  "naiveTokenEstimator request =
     (let inputChars = foldl (\<lambda>sum m. sum + int (length (content m))) 0 (messages request)
      in \<lparr> input = - ((- inputChars) div 4),
           maxOutput = resolveMaxOutput request DEFAULT_OUTPUT_CAP \<rparr>)"

section \<open>The concurrency gate\<close>

text \<open>
  Modelled from the spec: the concurrency gate, which is the imported package
  \<^verbatim>\<open>async-bulkhead-ts\<close> and not part of these sources (sections 2 and 6 of the
  specification give its interface). The bulkhead only calls \<^verbatim>\<open>createBulkhead\<close>,
  \<^verbatim>\<open>acquire\<close>, \<^verbatim>\<open>stats\<close> and a granted token's \<^verbatim>\<open>release\<close>. The gate's state
  here is what those calls can change or show: the configuration it was created with,
  the options of every \<^verbatim>\<open>acquire\<close> call made to it (in order), and the slot tokens
  it has granted that are not yet released. When and whether it grants is the gate's
  own business, and is an input of the model.
\<close>

record Gate =
  gate_maxConcurrent :: int
  gate_maxQueue :: int
  acquire_calls :: "AcquireOptions list"
  slots :: "nat list"
  next_slot :: nat

definition createBulkhead :: "int \<Rightarrow> int \<Rightarrow> Gate" where
  "createBulkhead mc mq =
     \<lparr> gate_maxConcurrent = mc, gate_maxQueue = mq, acquire_calls = [], slots = [],
       next_slot = 0 \<rparr>"

text \<open>A call \<^verbatim>\<open>bulkhead.acquire(options)\<close>: the call is recorded; its promise settles
  later, with a \<open>GateResult\<close>.\<close>

definition gate_acquire :: "Gate \<Rightarrow> AcquireOptions \<Rightarrow> Gate" where
  "gate_acquire g ao = g\<lparr> acquire_calls := acquire_calls g @ [ao] \<rparr>"

text \<open>The result of the gate's \<^verbatim>\<open>acquire\<close>: a slot with its token, or a refusal. The
  specification knows only slot tokens whose \<^verbatim>\<open>release()\<close> returns; lines 414-418
  provide for one whose \<^verbatim>\<open>release()\<close> throws, so the gate here may also grant a slot
  with such a token (\<open>GrantedFaulty\<close>, with the value thrown).\<close>

datatype 'e GateResult = Granted nat | GrantedFaulty nat "'e thrown" | Refused BaseRejectReason

datatype 'e GateAnswer = Grant | GrantFaulty "'e thrown" | Refuse BaseRejectReason

text \<open>The gate settles a pending \<^verbatim>\<open>acquire\<close>: a grant occupies a fresh slot.\<close>

definition gate_settle :: "Gate \<Rightarrow> 'e GateAnswer \<Rightarrow> 'e GateResult \<times> Gate" where
  "gate_settle g a =
     (case a of
        Grant \<Rightarrow> (Granted (next_slot g),
                   g\<lparr> slots := slots g @ [next_slot g], next_slot := Suc (next_slot g) \<rparr>)
      | GrantFaulty x \<Rightarrow>
          (GrantedFaulty (next_slot g) x,
           g\<lparr> slots := slots g @ [next_slot g], next_slot := Suc (next_slot g) \<rparr>)
      | Refuse r \<Rightarrow> (Refused r, g))"

text \<open>The type \<^verbatim>\<open>Token = { release(): void }\<close> of the gate's package: an object whose
  \<^verbatim>\<open>release()\<close> acts on the gate and may throw.\<close>

type_synonym 'e Token = "Gate \<Rightarrow> 'e thrown option \<times> Gate"

text \<open>Modelled from the spec: the token the gate grants for slot \<open>sid\<close>. Its
  \<^verbatim>\<open>release()\<close> is idempotent (section 6): it frees the slot and returns.\<close>

definition slot_release :: "nat \<Rightarrow> Gate \<Rightarrow> Gate" where
  "slot_release sid g = g\<lparr> slots := removeAll sid (slots g) \<rparr>"

definition slot_token :: "nat \<Rightarrow> 'e Token" where
  "slot_token sid g = (None, slot_release sid g)"

text \<open>Modelled from the spec: a token of the gate for slot \<open>sid\<close> whose
  \<^verbatim>\<open>release()\<close> throws \<open>x\<close>. Section 6 gives the release as idempotent and is silent
  on a release that throws, which the source provides for (the \<^verbatim>\<open>try/finally\<close> of
  lines 414-418); the model takes the failed release to leave the slot occupied.\<close>

definition faulty_token :: "nat \<Rightarrow> 'e thrown \<Rightarrow> 'e Token" where
  "faulty_token sid x g = (Some x, g)"

section \<open>The bulkhead's closure\<close>

text \<open>
  \<open>Env\<close> holds what \<^verbatim>\<open>createLLMBulkhead\<close> fixes at construction (lines 348-365):
  \<^verbatim>\<open>budget\<close>, the resolved \<^verbatim>\<open>estimator\<close> and \<^verbatim>\<open>timeoutMs\<close>,
  \<^verbatim>\<open>opts.deduplication\<close>, and the runtime's \<^verbatim>\<open>JSON.stringify\<close> on a message
  array (\<open>None\<close> when it throws). \<open>State\<close> holds what its closures mutate: the
  counter \<^verbatim>\<open>inFlightTokens\<close>, \<^verbatim>\<open>dedupMap\<close> (a \<^verbatim>\<open>Map\<close>, kept as an association
  list in insertion order), \<^verbatim>\<open>dedupHits\<close>, the gate, the wrapped tokens made by
  \<^verbatim>\<open>wrapToken\<close> (each with its own \<^verbatim>\<open>released\<close> flag), the promises made so
  far, the cleanup reactions registered by \<^verbatim>\<open>deferred.promise.then(cleanup, cleanup)\<close>
  that have not run yet, the invocations of work functions (function and signal), and
  the calls that are suspended at an \<^verbatim>\<open>await\<close>.
\<close>

record Env =
  env_budget :: "int option"
  estimator :: TokenEstimator
  env_timeoutMs :: "int option"
  env_deduplication :: bool
  JSON_stringify :: "LLMMessage list \<Rightarrow> string option"

record 'e WrappedToken =
  base :: "'e Token"
  reserved :: int
  released :: bool

datatype ('v, 'e) promise = Pending | Fulfilled 'v | Rejected "'e thrown"

text \<open>What the promise of \<^verbatim>\<open>_acquire\<close> settles with: the two variants of
  \<^verbatim>\<open>InternalAcquireResult\<close> (lines 332-334), \<open>Ok\<close> with the wrapped token and
  \<open>NotOk\<close> with the reason; or, when \<^verbatim>\<open>_acquire\<close> throws (line 454 can, when the
  slot token's \<^verbatim>\<open>release()\<close> throws), the rejection \<open>Threw\<close> with the value.\<close>

datatype 'e InternalAcquireResult = Ok nat | NotOk LLMRejectReason | Threw "'e thrown"

text \<open>Where \<^verbatim>\<open>_acquire\<close> stands when it first gives up control: it has returned a
  result, or it is suspended at \<^verbatim>\<open>await bulkhead.acquire(mergedOptions)\<close>.\<close>

datatype 'e AcquireEntered = Returned "'e InternalAcquireResult" | AtGate

text \<open>A suspended call. \<open>AcquireAtGate\<close>: \<^verbatim>\<open>acquire()\<close> waiting for the gate.
  \<open>RunAwaiting req p fn ao e\<close>: \<^verbatim>\<open>run()\<close> at \<^verbatim>\<open>await _acquire(request, ao)\<close>, with
  result promise \<open>p\<close> and work function \<open>fn\<close>. \<open>RunWorking p tok\<close>: the work function
  is running and holds token \<open>tok\<close>. \<open>RunWorkSettled p w\<close>: the promise \<^verbatim>\<open>work\<close> has
  settled with \<open>w\<close> and its reaction has not run yet.\<close>

datatype ('v, 'e) Task =
    AcquireAtGate LLMRequest
  | RunAwaiting LLMRequest nat nat AcquireOptions "'e AcquireEntered"
  | RunWorking nat nat
  | RunWorkSettled nat "'e thrown + 'v"

record ('v, 'e) State =
  inFlightTokens :: int
  dedupMap :: "(string \<times> nat) list"
  dedupHits :: nat
  bulkhead :: Gate
  tokens :: "'e WrappedToken list"
  promises :: "('v, 'e) promise list"
  cleanups :: "(string \<times> nat) list"
  fn_calls :: "(nat \<times> nat option) list"
  tasks :: "('v, 'e) Task list"

text \<open>
  \<^verbatim>\<open>createLLMBulkhead\<close> (lines 338-372): validation, option resolution, the gate and
  the initial state. The default estimator \<^verbatim>\<open>createModelAwareTokenEstimator\<close>
  divides by floating-point ratios; it is taken as the parameter \<open>dflt\<close> (from the
  model string and the output cap), as \<^verbatim>\<open>JSON.stringify\<close> is (\<open>js\<close>).
\<close>

definition createLLMBulkhead ::
  "(string \<Rightarrow> int option \<Rightarrow> TokenEstimator) \<Rightarrow> (LLMMessage list \<Rightarrow> string option) \<Rightarrow>
   LLMBulkheadOptions \<Rightarrow> string + (Env \<times> ('v, 'e) State)" where
  "createLLMBulkhead dflt js opts =
     (if model opts = [] then Inl ''model must be a non-empty string''
      else if maxConcurrent opts \<le> 0 then Inl ''maxConcurrent must be a positive integer''
      else Inr
        (\<lparr> env_budget = map_option budget (tokenBudget opts),
           estimator =
             (case Option.bind (tokenBudget opts) budget_estimator of
                Some e \<Rightarrow> e
              | None \<Rightarrow> dflt (model opts) (Option.bind (tokenBudget opts) outputCap)),
           env_timeoutMs = resolved_timeoutMs opts,
           env_deduplication = (deduplication opts = Some True),
           JSON_stringify = js \<rparr>,
         \<lparr> inFlightTokens = 0, dedupMap = [], dedupHits = 0,
           bulkhead = createBulkhead (maxConcurrent opts) (resolved_maxQueue opts),
           tokens = [], promises = [], cleanups = [], fn_calls = [], tasks = [] \<rparr>))"

section \<open>The token ledger and the wrapped token\<close>

text \<open>\<^verbatim>\<open>tryReserveTokens\<close> (lines 391-398): \<open>None\<close> is \<^verbatim>\<open>null\<close>.\<close>

definition tryReserveTokens ::
  "Env \<Rightarrow> ('v, 'e) State \<Rightarrow> LLMRequest \<Rightarrow> int option \<times> ('v, 'e) State" where
  "tryReserveTokens env st request =
     (case env_budget env of
        None \<Rightarrow> (Some 0, st)
      | Some b \<Rightarrow>
          (let estimate = estimator env request;
               needed = input estimate + maxOutput estimate
           in if inFlightTokens st + needed > b then (None, st)
              else (Some needed, st\<lparr> inFlightTokens := inFlightTokens st + needed \<rparr>)))"

text \<open>\<^verbatim>\<open>releaseTokens\<close> (lines 400-402).\<close>

definition releaseTokens :: "('v, 'e) State \<Rightarrow> int \<Rightarrow> ('v, 'e) State" where
  "releaseTokens st r = st\<lparr> inFlightTokens := max 0 (inFlightTokens st - r) \<rparr>"

text \<open>\<^verbatim>\<open>wrapToken\<close> (lines 408-421) makes a new token object, with
  \<^verbatim>\<open>released = false\<close>; the object is identified by its position in \<open>tokens\<close>.\<close>

definition wrapToken ::
  "('v, 'e) State \<Rightarrow> 'e Token \<Rightarrow> int \<Rightarrow> nat \<times> ('v, 'e) State" where
  "wrapToken st b r =
     (length (tokens st),
      st\<lparr> tokens := tokens st @ [\<lparr> base = b, reserved = r, released = False \<rparr>] \<rparr>)"

text \<open>
  The wrapped token's \<^verbatim>\<open>release()\<close> (lines 411-419): nothing when already released;
  otherwise the flag is set, then \<^verbatim>\<open>base.release()\<close> runs, and \<^verbatim>\<open>releaseTokens\<close>
  runs in the \<^verbatim>\<open>finally\<close> block whether or not the base release threw. The first
  component is what the call throws, if anything.
\<close>

definition release :: "('v, 'e) State \<Rightarrow> nat \<Rightarrow> 'e thrown option \<times> ('v, 'e) State" where
  "release st t =
     (if t < length (tokens st) then
        (let w = tokens st ! t in
         if released w then (None, st)
         else
           (let st1 = st\<lparr> tokens := (tokens st)[t := w\<lparr> released := True \<rparr>] \<rparr>;
                (exn, g) = base w (bulkhead st1);
                st2 = releaseTokens (st1\<lparr> bulkhead := g \<rparr>) (reserved w)
            in (exn, st2)))
      else (None, st))"

section \<open>The admission engine\<close>

text \<open>Lines 439-442: the options passed to the gate.\<close>

definition mergedOptions :: "Env \<Rightarrow> AcquireOptions \<Rightarrow> AcquireOptions" where
  "mergedOptions env ao =
     \<lparr> signal = signal ao,
       timeoutMs = (case timeoutMs ao of Some t \<Rightarrow> Some t | None \<Rightarrow> env_timeoutMs env) \<rparr>"

text \<open>
  \<^verbatim>\<open>_acquire\<close> runs in two parts. \<open>acquire_enter\<close> is lines 430-444, from the call
  to the \<^verbatim>\<open>await\<close>: the read-only budget check, then the call of the gate.
  \<open>acquire_resume\<close> is lines 446-458, from the gate's result \<open>r\<close> to the return: the
  reservation, and the release of the granted slot token when it fails (line 454:
  the slot is freed; or, with a token whose \<^verbatim>\<open>release()\<close> throws, \<^verbatim>\<open>_acquire\<close>
  throws that value).
\<close>

definition acquire_enter ::
  "Env \<Rightarrow> ('v, 'e) State \<Rightarrow> LLMRequest \<Rightarrow> AcquireOptions \<Rightarrow>
   'e AcquireEntered \<times> ('v, 'e) State" where
  "acquire_enter env st request ao =
     (let over =
            (case env_budget env of
               None \<Rightarrow> False
             | Some b \<Rightarrow>
                 (let estimate = estimator env request;
                      needed = input estimate + maxOutput estimate
                  in inFlightTokens st + needed > b))
      in if over then (Returned (NotOk budget_limit), st)
         else (AtGate, st\<lparr> bulkhead := gate_acquire (bulkhead st) (mergedOptions env ao) \<rparr>))"

definition acquire_resume ::
  "Env \<Rightarrow> ('v, 'e) State \<Rightarrow> LLMRequest \<Rightarrow> 'e GateResult \<Rightarrow>
   'e InternalAcquireResult \<times> ('v, 'e) State" where
  "acquire_resume env st request r =
     (case r of
        Refused rsn \<Rightarrow> (NotOk (Base rsn), st)
      | Granted sid \<Rightarrow>
          (case tryReserveTokens env st request of
             (None, st1) \<Rightarrow>
               (NotOk budget_limit, st1\<lparr> bulkhead := slot_release sid (bulkhead st1) \<rparr>)
           | (Some n, st1) \<Rightarrow>
               (let (t, st2) = wrapToken st1 (slot_token sid) n in (Ok t, st2)))
      | GrantedFaulty sid x \<Rightarrow>
          (case tryReserveTokens env st request of
             (None, st1) \<Rightarrow> (Threw x, st1)
           | (Some n, st1) \<Rightarrow>
               (let (t, st2) = wrapToken st1 (faulty_token sid x) n in (Ok t, st2))))"

section \<open>The run wrapper and the deduplication registry\<close>

text \<open>
  Every call of the async function \<^verbatim>\<open>run\<close> returns a promise. With deduplication
  and a new key it is \<^verbatim>\<open>resultPromise\<close>, the deferred's promise (the async
  function's own promise follows it); for a follower it is the existing entry's
  promise; otherwise it is the async function's own promise. All of them live in
  \<open>promises\<close>, and a call's result promise is given by its position there.
\<close>

definition createDeferred :: "('v, 'e) State \<Rightarrow> nat \<times> ('v, 'e) State" where
  "createDeferred st = (length (promises st), st\<lparr> promises := promises st @ [Pending] \<rparr>)"

text \<open>Resolving or rejecting a promise: only a pending promise changes.\<close>

definition settle :: "('v, 'e) State \<Rightarrow> nat \<Rightarrow> ('v, 'e) promise \<Rightarrow> ('v, 'e) State" where
  "settle st p out =
     (if p < length (promises st) \<and> promises st ! p = Pending
      then st\<lparr> promises := (promises st)[p := out] \<rparr> else st)"

text \<open>Lines 495-502: the key; the empty string when deduplication is off or
  \<^verbatim>\<open>JSON.stringify\<close> throws.\<close>

definition dedupKey :: "Env \<Rightarrow> LLMRequest \<Rightarrow> string" where
  "dedupKey env request =
     (if env_deduplication env
      then (case JSON_stringify env (messages request) of Some s \<Rightarrow> s | None \<Rightarrow> [])
      else [])"

text \<open>The closure \<^verbatim>\<open>cleanup\<close> (lines 526-533) of the leader with key \<open>k\<close> and
  deferred promise \<open>p\<close>. Its \<^verbatim>\<open>try/catch\<close> swallows everything, so it has no
  exceptional result.\<close>

definition cleanup :: "('v, 'e) State \<Rightarrow> string \<Rightarrow> nat \<Rightarrow> ('v, 'e) State" where
  "cleanup st k p =
     (if map_of (dedupMap st) k = Some p
      then st\<lparr> dedupMap := AList.delete k (dedupMap st) \<rparr> else st)"

datatype 'e RunEntered = Joined nat | Entered nat "'e AcquireEntered"

text \<open>
  \<open>run_enter\<close> is \<^verbatim>\<open>run\<close> from the call to its first \<^verbatim>\<open>await\<close> (lines 495-539):
  the follower returns the existing promise; a leader makes the deferred, stores it
  and registers \<^verbatim>\<open>cleanup\<close>; then \<^verbatim>\<open>_acquire\<close> is entered.
\<close>

definition run_enter ::
  "Env \<Rightarrow> ('v, 'e) State \<Rightarrow> LLMRequest \<Rightarrow> AcquireOptions \<Rightarrow>
   'e RunEntered \<times> ('v, 'e) State" where
  "run_enter env st request ao =
     (let k = dedupKey env request in
      if env_deduplication env \<and> k \<noteq> [] then
        (case map_of (dedupMap st) k of
           Some existing \<Rightarrow> (Joined existing, st\<lparr> dedupHits := Suc (dedupHits st) \<rparr>)
         | None \<Rightarrow>
             (let (p, st1) = createDeferred st;
                  st2 = st1\<lparr> dedupMap := AList.update k p (dedupMap st1),
                             cleanups := cleanups st1 @ [(k, p)] \<rparr>;
                  (e, st3) = acquire_enter env st2 request ao
              in (Entered p e, st3)))
      else
        (let (p, st1) = createDeferred st;
             (e, st2) = acquire_enter env st1 request ao
         in (Entered p e, st2)))"

text \<open>
  \<open>run_resume\<close> is \<^verbatim>\<open>run\<close> after \<^verbatim>\<open>await _acquire\<close> gave \<open>r\<close> (lines 539-550 and
  565-571). A rejection is thrown as an \<^verbatim>\<open>LLMBulkheadRejectedError\<close> and caught, as
  is what \<^verbatim>\<open>_acquire\<close> itself threw: \<^verbatim>\<open>deferred.reject(err)\<close> with a deferred,
  \<^verbatim>\<open>throw err\<close> without, which both reject the call's result promise \<open>p\<close>.
  Otherwise \<^verbatim>\<open>fn(ao.signal)\<close> is invoked and the call holds the token.
\<close>

definition run_resume ::
  "('v, 'e) State \<Rightarrow> nat \<Rightarrow> nat \<Rightarrow> AcquireOptions \<Rightarrow> 'e InternalAcquireResult \<Rightarrow>
   nat option \<times> ('v, 'e) State" where
  "run_resume st p fn ao r =
     (case r of
        NotOk rsn \<Rightarrow> (None, settle st p (Rejected (Rejection (LLMBulkheadRejectedError rsn))))
      | Threw x \<Rightarrow> (None, settle st p (Rejected x))
      | Ok tok \<Rightarrow> (Some tok, st\<lparr> fn_calls := fn_calls st @ [(fn, signal ao)] \<rparr>))"

text \<open>
  \<open>work_settles\<close> is the async block \<^verbatim>\<open>work\<close> (lines 544-550) when the work function
  has given \<open>outcome\<close> (\<open>Inr\<close> a value, \<open>Inl\<close> what it threw or rejected with): the
  \<^verbatim>\<open>finally\<close> block releases the token, and \<^verbatim>\<open>work\<close> settles with the outcome, or
  with what \<^verbatim>\<open>release()\<close> threw.
\<close>

definition work_settles ::
  "('v, 'e) State \<Rightarrow> nat \<Rightarrow> 'e thrown + 'v \<Rightarrow> ('e thrown + 'v) \<times> ('v, 'e) State" where
  "work_settles st tok outcome =
     (case release st tok of
        (None, st1) \<Rightarrow> (outcome, st1)
      | (Some x, st1) \<Rightarrow> (Inl x, st1))"

text \<open>\<open>run_deliver\<close> is the reaction to \<^verbatim>\<open>work\<close> (lines 552-564):
  \<^verbatim>\<open>deferred.resolve(v)\<close> or \<^verbatim>\<open>deferred.reject(e)\<close>, or, without a deferred, the
  async function's promise taking the state of \<^verbatim>\<open>work\<close>.\<close>

definition run_deliver :: "('v, 'e) State \<Rightarrow> nat \<Rightarrow> 'e thrown + 'v \<Rightarrow> ('v, 'e) State" where
  "run_deliver st p w = settle st p (case w of Inl e \<Rightarrow> Rejected e | Inr v \<Rightarrow> Fulfilled v)"

section \<open>Stats\<close>

record TokenBudgetStats =
  stats_budget :: int
  stats_inFlightTokens :: int
  available :: int

record DeduplicationStats =
  active :: nat
  hits :: nat

record LLMStats =
  base_stats :: Gate
  stats_tokenBudget :: "TokenBudgetStats option"
  stats_deduplication :: "DeduplicationStats option"

text \<open>\<^verbatim>\<open>stats\<close> (lines 575-595); \<^verbatim>\<open>dedupMap.size\<close> is the number of entries.\<close>

definition stats :: "Env \<Rightarrow> ('v, 'e) State \<Rightarrow> LLMStats" where
  "stats env st =
     \<lparr> base_stats = bulkhead st,
       stats_tokenBudget =
         (case env_budget env of
            None \<Rightarrow> None
          | Some b \<Rightarrow> Some \<lparr> stats_budget = b, stats_inFlightTokens = inFlightTokens st,
                            available = max 0 (b - inFlightTokens st) \<rparr>),
       stats_deduplication =
         (if env_deduplication env
          then Some \<lparr> active = length (dedupMap st), hits = dedupHits st \<rparr> else None) \<rparr>"

section \<open>Executions\<close>

text \<open>
  JavaScript runs one job at a time, each to completion. An execution of a bulkhead is
  a sequence of events, each one job: a caller calls \<^verbatim>\<open>acquire\<close>, \<^verbatim>\<open>run\<close> or a
  wrapped token's \<^verbatim>\<open>release\<close>; the gate settles a pending \<^verbatim>\<open>acquire\<close> of
  suspended call \<open>i\<close> and the call resumes; a call that waits on a settled promise
  resumes; the work function of call \<open>i\<close> settles; the cleanup reaction \<open>j\<close> of a
  settled deferred promise runs. The gate's answers and the work functions' outcomes
  are inputs. An event that is not enabled changes nothing. A caller may call
  \<^verbatim>\<open>release\<close> on any wrapped token, also on one that a \<^verbatim>\<open>run\<close> call holds and
  real callers cannot reach, and the gate may grant at any time, also a slot whose
  token's \<^verbatim>\<open>release()\<close> throws: the executions here include those of the program.
\<close>

datatype ('v, 'e) Event =
    CallAcquire LLMRequest AcquireOptions
  | CallRun LLMRequest nat AcquireOptions
  | CallRelease nat
  | GateSettles nat "'e GateAnswer"
  | Resume nat
  | FnSettles nat "'e thrown + 'v"
  | Reaction nat

definition remove_at :: "nat \<Rightarrow> 'a list \<Rightarrow> 'a list" where
  "remove_at i xs = take i xs @ drop (Suc i) xs"

definition run_continue ::
  "('v, 'e) State \<Rightarrow> nat \<Rightarrow> nat \<Rightarrow> nat \<Rightarrow> AcquireOptions \<Rightarrow> 'e InternalAcquireResult \<Rightarrow>
   ('v, 'e) State" where
  "run_continue st i p fn ao res =
     (case run_resume st p fn ao res of
        (None, st1) \<Rightarrow> st1\<lparr> tasks := remove_at i (tasks st1) \<rparr>
      | (Some tok, st1) \<Rightarrow> st1\<lparr> tasks := (tasks st1)[i := RunWorking p tok] \<rparr>)"

fun step :: "Env \<Rightarrow> ('v, 'e) State \<Rightarrow> ('v, 'e) Event \<Rightarrow> ('v, 'e) State" where
  "step env st (CallAcquire request ao) =
     (case acquire_enter env st request ao of
        (Returned r, st1) \<Rightarrow> st1
      | (AtGate, st1) \<Rightarrow> st1\<lparr> tasks := tasks st1 @ [AcquireAtGate request] \<rparr>)"
| "step env st (CallRun request fn ao) =
     (case run_enter env st request ao of
        (Joined p, st1) \<Rightarrow> st1
      | (Entered p e, st1) \<Rightarrow> st1\<lparr> tasks := tasks st1 @ [RunAwaiting request p fn ao e] \<rparr>)"
| "step env st (CallRelease t) = snd (release st t)"
| "step env st (GateSettles i a) =
     (if i < length (tasks st) then
        (case tasks st ! i of
           AcquireAtGate request \<Rightarrow>
             (let (r, g) = gate_settle (bulkhead st) a;
                  (res, st1) = acquire_resume env (st\<lparr> bulkhead := g \<rparr>) request r
              in st1\<lparr> tasks := remove_at i (tasks st1) \<rparr>)
         | RunAwaiting request p fn ao AtGate \<Rightarrow>
             (let (r, g) = gate_settle (bulkhead st) a;
                  (res, st1) = acquire_resume env (st\<lparr> bulkhead := g \<rparr>) request r
              in run_continue st1 i p fn ao res)
         | _ \<Rightarrow> st)
      else st)"
| "step env st (Resume i) =
     (if i < length (tasks st) then
        (case tasks st ! i of
           RunAwaiting request p fn ao (Returned res) \<Rightarrow> run_continue st i p fn ao res
         | RunWorkSettled p w \<Rightarrow> (run_deliver st p w)\<lparr> tasks := remove_at i (tasks st) \<rparr>
         | _ \<Rightarrow> st)
      else st)"
| "step env st (FnSettles i outcome) =
     (if i < length (tasks st) then
        (case tasks st ! i of
           RunWorking p tok \<Rightarrow>
             (let (w, st1) = work_settles st tok outcome
              in st1\<lparr> tasks := (tasks st1)[i := RunWorkSettled p w] \<rparr>)
         | _ \<Rightarrow> st)
      else st)"
| "step env st (Reaction j) =
     (if j < length (cleanups st) then
        (case cleanups st ! j of
           (k, p) \<Rightarrow>
             if p < length (promises st) \<and> promises st ! p \<noteq> Pending
             then (cleanup st k p)\<lparr> cleanups := remove_at j (cleanups st) \<rparr>
             else st)
      else st)"

definition exec :: "Env \<Rightarrow> ('v, 'e) State \<Rightarrow> ('v, 'e) Event list \<Rightarrow> ('v, 'e) State" where
  "exec env st evs = foldl (step env) st evs"

section \<open>Invariants and example bulkheads\<close>

text \<open>The estimator returns non-negative components, for every request.\<close>

definition nonneg_estimator :: "Env \<Rightarrow> bool" where
  "nonneg_estimator env \<longleftrightarrow>
     (\<forall>r. 0 \<le> input (estimator env r) \<and> 0 \<le> maxOutput (estimator env r))"

text \<open>The ledger invariant that every job preserves: the counter is between 0 and the
  budget (0 for a negative budget), and no wrapped token holds a negative reservation.\<close>

definition ledger_inv :: "int \<Rightarrow> ('v, 'e) State \<Rightarrow> bool" where
  "ledger_inv b st \<longleftrightarrow>
     0 \<le> inFlightTokens st \<and> inFlightTokens st \<le> max 0 b \<and>
     (\<forall>w \<in> set (tokens st). 0 \<le> reserved w)"

text \<open>The budget invariant in the words of the specification, on what
  \<^verbatim>\<open>stats().tokenBudget\<close> shows: \<^verbatim>\<open>0 <= inFlightTokens <= budget\<close>.\<close>

definition budget_invariant :: "Env \<Rightarrow> ('v, 'e) State \<Rightarrow> bool" where
  "budget_invariant env st =
     (case stats_tokenBudget (stats env st) of
        None \<Rightarrow> True
      | Some s \<Rightarrow> 0 \<le> stats_inFlightTokens s \<and> stats_inFlightTokens s \<le> stats_budget s)"

text \<open>
  \<^verbatim>\<open>JSON.stringify\<close> of the runtime on an array of message objects, as ECMAScript
  defines it: a string is put in double quotes, with the double quote, the backslash
  and the control characters escaped; a \<^verbatim>\<open>BigInt\<close> makes it throw (\<open>None\<close>); an
  object is its properties in their order, each the quoted key, a colon and the value,
  separated by commas and in braces; an array is its elements, separated by commas and
  in brackets.
\<close>

definition hex_digit :: "nat \<Rightarrow> char" where
  "hex_digit n = ''0123456789abcdef'' ! n"

definition quote_char :: "char \<Rightarrow> string" where
  "quote_char c =
     (if c = CHR 0x22 then [CHR 0x5C, CHR 0x22]
      else if c = CHR 0x5C then [CHR 0x5C, CHR 0x5C]
      else if c = CHR 0x08 then [CHR 0x5C, CHR ''b'']
      else if c = CHR 0x09 then [CHR 0x5C, CHR ''t'']
      else if c = CHR 0x0A then [CHR 0x5C, CHR ''n'']
      else if c = CHR 0x0C then [CHR 0x5C, CHR ''f'']
      else if c = CHR 0x0D then [CHR 0x5C, CHR ''r'']
      else if (of_char c :: nat) < 32
        then [CHR 0x5C, CHR ''u'', CHR ''0'', CHR ''0'',
              hex_digit (of_char c div 16), hex_digit (of_char c mod 16)]
      else [c])"

definition quote_string :: "string \<Rightarrow> string" where
  "quote_string s = [CHR 0x22] @ concat (map quote_char s) @ [CHR 0x22]"

fun join :: "string \<Rightarrow> string list \<Rightarrow> string" where
  "join sep [] = []"
| "join sep [x] = x"
| "join sep (x # y # ys) = x @ sep @ join sep (y # ys)"

definition stringify_value :: "JSValue \<Rightarrow> string option" where
  "stringify_value v = (case v of JSString s \<Rightarrow> Some (quote_string s) | JSBigInt n \<Rightarrow> None)"

definition stringify_property :: "string \<times> JSValue \<Rightarrow> string option" where
  "stringify_property kv =
     map_option (\<lambda>v. quote_string (fst kv) @ '':'' @ v) (stringify_value (snd kv))"

definition stringify_object :: "LLMMessage \<Rightarrow> string option" where
  "stringify_object m =
     map_option (\<lambda>ps. ''{'' @ join '','' ps @ ''}'') (those (map stringify_property m))"

definition ex_stringify :: "LLMMessage list \<Rightarrow> string option" where
  "ex_stringify ms =
     map_option (\<lambda>os. ''['' @ join '','' os @ '']'') (those (map stringify_object ms))"

text \<open>Example bulkheads: an estimator that charges \<open>a + b\<close> for every request, and the
  bulkhead \<^verbatim>\<open>createLLMBulkhead({model, maxConcurrent: 2, profile: 'batch', tokenBudget:
  {budget: b, estimator}, deduplication: d})\<close>. The example request has the one message
  \<^verbatim>\<open>{role: 'user', content: 'hello'}\<close>.\<close>

definition fixed_estimator :: "int \<Rightarrow> int \<Rightarrow> TokenEstimator" where
  "fixed_estimator a b = (\<lambda>request. \<lparr> input = a, maxOutput = b \<rparr>)"

definition ex_opts :: "int \<Rightarrow> bool \<Rightarrow> LLMBulkheadOptions" where
  "ex_opts b d =
     \<lparr> model = ''claude-sonnet-4'', maxConcurrent = 2, opt_maxQueue = None,
       opt_timeoutMs = None, profile = Some batch,
       tokenBudget = Some \<lparr> budget = b, budget_estimator = Some (fixed_estimator 60 60),
                            outputCap = None \<rparr>,
       deduplication = Some d \<rparr>"

definition ex_bulkhead :: "int \<Rightarrow> bool \<Rightarrow> string + Env \<times> (nat, string) State" where
  "ex_bulkhead b d = createLLMBulkhead (\<lambda>m c. naiveTokenEstimator) ex_stringify (ex_opts b d)"

definition ex_env :: "int \<Rightarrow> bool \<Rightarrow> Env" where
  "ex_env b d = fst (projr (ex_bulkhead b d))"

definition ex_init :: "int \<Rightarrow> bool \<Rightarrow> (nat, string) State" where
  "ex_init b d = snd (projr (ex_bulkhead b d))"

definition ex_request :: "int option \<Rightarrow> LLMRequest" where
  "ex_request m =
     \<lparr> messages = [[(''role'', JSString ''user''), (''content'', JSString ''hello'')]],
       max_tokens = m \<rparr>"

definition no_options :: AcquireOptions where
  "no_options = \<lparr> signal = None, timeoutMs = None \<rparr>"

text \<open>The wrapped token \<open>t\<close> exists and its \<^verbatim>\<open>released\<close> flag is set.\<close>

definition is_released :: "('v, 'e) State \<Rightarrow> nat \<Rightarrow> bool" where
  "is_released st t \<longleftrightarrow> t < length (tokens st) \<and> released (tokens st ! t)"

text \<open>Example states: \<open>ex_admitted d\<close> after one \<^verbatim>\<open>acquire\<close> has been admitted
  (token 0 on slot 0, 120 tokens reserved); \<open>ex_faulty\<close> after one \<^verbatim>\<open>acquire\<close> has
  been admitted with a slot token whose \<^verbatim>\<open>release()\<close> throws.\<close>

definition ex_admitted :: "bool \<Rightarrow> (nat, string) State" where
  "ex_admitted d =
     exec (ex_env 200 d) (ex_init 200 d)
       [CallAcquire (ex_request None) no_options, GateSettles 0 Grant]"

definition ex_faulty :: "(nat, string) State" where
  "ex_faulty =
     exec (ex_env 200 False) (ex_init 200 False)
       [CallAcquire (ex_request None) no_options,
        GateSettles 0 (GrantFaulty (OtherError ''release failed''))]"

text \<open>The call \<^verbatim>\<open>run(request, ...)\<close> in state \<open>st\<close> is a follower: deduplication is on,
  the key is not empty and the registry has an entry for it.\<close>

definition joins :: "Env \<Rightarrow> ('v, 'e) State \<Rightarrow> LLMRequest \<Rightarrow> bool" where
  "joins env st rq \<longleftrightarrow>
     env_deduplication env \<and> dedupKey env rq \<noteq> [] \<and>
     map_of (dedupMap st) (dedupKey env rq) \<noteq> None"

text \<open>\<open>ex_contended d\<close>: an \<^verbatim>\<open>acquire\<close>, a \<^verbatim>\<open>run\<close> and another \<^verbatim>\<open>acquire\<close> were
  called while the budget was free; the first has been admitted and holds 120 of the
  200 tokens, the other two still wait at the gate (suspended calls 0 and 1).
  \<open>ex_leading\<close>: with deduplication, a \<^verbatim>\<open>run\<close> has been admitted and its work
  function is running.\<close>

definition ex_contended :: "bool \<Rightarrow> (nat, string) State" where
  "ex_contended d =
     exec (ex_env 200 d) (ex_init 200 d)
       [CallAcquire (ex_request None) no_options, CallRun (ex_request None) 7 no_options,
        CallAcquire (ex_request None) no_options, GateSettles 0 Grant]"

definition ex_leading :: "(nat, string) State" where
  "ex_leading =
     exec (ex_env 200 True) (ex_init 200 True)
       [CallRun (ex_request None) 7 no_options, GateSettles 0 Grant]"

text \<open>Options with every queue and timeout value given explicitly as 0 over the batch
  profile.\<close>

definition ex_explicit_opts :: LLMBulkheadOptions where
  "ex_explicit_opts = (ex_opts 200 False)\<lparr> opt_maxQueue := Some 0, opt_timeoutMs := Some 0 \<rparr>"

definition ex_explicit :: "string + Env \<times> (nat, string) State" where
  "ex_explicit = createLLMBulkhead (\<lambda>m c. naiveTokenEstimator) ex_stringify ex_explicit_opts"

text \<open>The event is a \<^verbatim>\<open>run\<close> call that joins an in-flight entry, and the number of
  such calls along an execution.\<close>

fun is_follower :: "Env \<Rightarrow> ('v, 'e) State \<Rightarrow> ('v, 'e) Event \<Rightarrow> bool" where
  "is_follower env st (CallRun rq fn ao) = joins env st rq"
| "is_follower env st ev = False"

fun followers :: "Env \<Rightarrow> ('v, 'e) State \<Rightarrow> ('v, 'e) Event list \<Rightarrow> nat" where
  "followers env st [] = 0"
| "followers env st (ev # evs) =
     (if is_follower env st ev then 1 else 0) + followers env (step env st ev) evs"

text \<open>\<open>ex_queued\<close>: with deduplication, a \<^verbatim>\<open>run\<close> is waiting at the gate.\<close>

definition ex_queued :: "(nat, string) State" where
  "ex_queued = exec (ex_env 200 True) (ex_init 200 True) [CallRun (ex_request None) 7 no_options]"

text \<open>\<open>ex_prerejected\<close>: the budget is held by an admitted \<^verbatim>\<open>acquire\<close>, and a
  \<^verbatim>\<open>run\<close> call has failed the budget check and waits to resume.\<close>

definition ex_prerejected :: "(nat, string) State" where
  "ex_prerejected =
     step (ex_env 200 False) (ex_admitted False) (CallRun (ex_request None) 7 no_options)"

text \<open>The result promise of a suspended \<^verbatim>\<open>run\<close> call.\<close>

fun task_promise :: "('v, 'e) Task \<Rightarrow> nat option" where
  "task_promise (AcquireAtGate rq) = None"
| "task_promise (RunAwaiting rq p fn ao e) = Some p"
| "task_promise (RunWorking p tok) = Some p"
| "task_promise (RunWorkSettled p w) = Some p"

text \<open>
  The registry invariant, on the registry \<open>dm\<close>, the pending cleanup reactions \<open>cl\<close>,
  the promises \<open>pr\<close> and the suspended calls \<open>ts\<close>: keys are unique; every entry has
  its cleanup reaction pending; the promise of every suspended \<^verbatim>\<open>run\<close> call and of
  every pending reaction exists; and a pending reaction whose promise is still pending
  belongs to a suspended \<^verbatim>\<open>run\<close> call, which will settle it.
\<close>

definition reg ::
  "(string \<times> nat) list \<Rightarrow> (string \<times> nat) list \<Rightarrow> ('v, 'e) promise list \<Rightarrow>
   ('v, 'e) Task list \<Rightarrow> bool" where
  "reg dm cl pr ts \<longleftrightarrow>
     distinct (map fst dm) \<and> set dm \<subseteq> set cl \<and>
     (\<forall>t \<in> set ts. \<forall>p. task_promise t = Some p \<longrightarrow> p < length pr) \<and>
     (\<forall>(k, p) \<in> set cl. p < length pr \<and>
        (pr ! p = Pending \<longrightarrow> Some p \<in> task_promise ` set ts))"

definition registry_inv :: "('v, 'e) State \<Rightarrow> bool" where
  "registry_inv st = reg (dedupMap st) (cleanups st) (promises st) (tasks st)"

text \<open>Running the pending cleanup reactions, first to last.\<close>

definition drain :: "Env \<Rightarrow> ('v, 'e) State \<Rightarrow> ('v, 'e) State" where
  "drain env st = exec env st (replicate (length (cleanups st)) (Reaction 0))"
text \<open>\<open>ex_settled\<close>: with deduplication, a \<^verbatim>\<open>run\<close> has been admitted, its work function
  has returned 5 and its promise has settled; its cleanup reaction has not run yet.\<close>

definition ex_settled :: "(nat, string) State" where
  "ex_settled =
     exec (ex_env 200 True) (ex_init 200 True)
       [CallRun (ex_request None) 7 no_options, GateSettles 0 Grant, FnSettles 0 (Inr 5),
        Resume 0]"

text \<open>What \<^verbatim>\<open>tryReserveTokens\<close> reserves for a request when it reserves (lines
  392-397): nothing without a budget, else \<^verbatim>\<open>estimate.input + estimate.maxOutput\<close>; and
  the condition under which it reserves: there is no budget, or not
  \<^verbatim>\<open>inFlightTokens + needed > budget.budget\<close>.\<close>

definition reservation :: "Env \<Rightarrow> LLMRequest \<Rightarrow> int" where
  "reservation env rq =
     (case env_budget env of
        None \<Rightarrow> 0
      | Some b \<Rightarrow> input (estimator env rq) + maxOutput (estimator env rq))"

definition headroom :: "Env \<Rightarrow> ('v, 'e) State \<Rightarrow> LLMRequest \<Rightarrow> bool" where
  "headroom env st rq =
     (case env_budget env of
        None \<Rightarrow> True
      | Some b \<Rightarrow>
          \<not> inFlightTokens st + (input (estimator env rq) + maxOutput (estimator env rq)) > b)"

text \<open>\<open>ex_waiting\<close>: an \<^verbatim>\<open>acquire\<close> has been called and waits at the gate.\<close>

definition ex_waiting :: "(nat, string) State" where
  "ex_waiting =
     exec (ex_env 200 False) (ex_init 200 False) [CallAcquire (ex_request None) no_options]"

text \<open>The \<^verbatim>\<open>code\<close> property of the example error values, which are named by strings:
  the value \<open>look-alike\<close> is an object that carries the code of the bulkhead's
  rejections and is no \<^verbatim>\<open>LLMBulkheadRejectedError\<close>; the others carry none.\<close>

definition ex_code_of :: "string \<Rightarrow> string option" where
  "ex_code_of e = (if e = ''look-alike'' then Some ''LLM_BULKHEAD_REJECTED'' else None)"




lemmas stringify_defs =
  ex_stringify_def stringify_object_def stringify_property_def stringify_value_def
  quote_string_def quote_char_def hex_digit_def

lemma ex_stringify_hello:
  "ex_stringify [[(''role'', JSString ''user''), (''content'', JSString ''hello'')]]
     = Some ''[{\"role\":\"user\",\"content\":\"hello\"}]''"
  by (simp add: stringify_defs)

lemmas ex_defs =
  ex_bulkhead_def ex_env_def ex_init_def ex_opts_def ex_request_def no_options_def
  ex_stringify_hello fixed_estimator_def createLLMBulkhead_def createBulkhead_def
  resolved_timeoutMs_def resolved_maxQueue_def resolvePreset_def nullish_def

lemmas op_defs =
  exec_def run_enter_def acquire_enter_def acquire_resume_def run_resume_def
  run_continue_def work_settles_def run_deliver_def release_def releaseTokens_def
  wrapToken_def tryReserveTokens_def settle_def createDeferred_def dedupKey_def
  cleanup_def gate_settle_def gate_acquire_def slot_token_def slot_release_def
  mergedOptions_def remove_at_def stats_def Let_def

section \<open>The ledger invariant\<close>

lemma ledger_tasks [simp]: "ledger_inv b (st\<lparr> tasks := ts \<rparr>) = ledger_inv b st"
  by (simp add: ledger_inv_def)

lemma ledger_cleanups [simp]: "ledger_inv b (st\<lparr> cleanups := c \<rparr>) = ledger_inv b st"
  by (simp add: ledger_inv_def)

lemma ledger_settle [simp]: "ledger_inv b (settle st p out) = ledger_inv b st"
  by (simp add: settle_def ledger_inv_def)

lemma ledger_cleanup [simp]: "ledger_inv b (cleanup st k p) = ledger_inv b st"
  by (simp add: cleanup_def ledger_inv_def)

lemma ledger_acquire_enter:
  "ledger_inv b st \<Longrightarrow> acquire_enter env st rq ao = (e, st1) \<Longrightarrow> ledger_inv b st1"
  by (auto simp: acquire_enter_def ledger_inv_def Let_def split: if_splits)

lemma ledger_acquire_resume:
  assumes "ledger_inv b st" and "nonneg_estimator env" and "env_budget env = Some b"
    and "acquire_resume env (st\<lparr> bulkhead := g \<rparr>) rq r = (res, st1)"
  shows "ledger_inv b st1"
  using assms
  by (cases r)
     (auto simp: acquire_resume_def tryReserveTokens_def wrapToken_def ledger_inv_def
        nonneg_estimator_def Let_def add_nonneg_nonneg split: if_splits)

lemma ledger_release:
  assumes "ledger_inv b st"
  shows "ledger_inv b (snd (release st t))"
proof (cases "t < length (tokens st) \<and> \<not> released (tokens st ! t)")
  case False
  then show ?thesis using assms by (auto simp: release_def Let_def)
next
  case True
  then have r: "0 \<le> reserved (tokens st ! t)"
    using assms by (simp add: ledger_inv_def)
  have "\<And>w. w \<in> set ((tokens st)[t := (tokens st ! t)\<lparr> released := True \<rparr>]) \<Longrightarrow> 0 \<le> reserved w"
    using assms r by (auto simp: ledger_inv_def dest!: set_update_subset_insert[THEN subsetD])
  moreover have "max 0 (inFlightTokens st - reserved (tokens st ! t)) \<le> max 0 b"
    using assms r by (auto simp: ledger_inv_def)
  ultimately show ?thesis
    using True
    by (auto simp: release_def Let_def releaseTokens_def ledger_inv_def split: prod.splits)
qed

lemma ledger_work_settles:
  "ledger_inv b st \<Longrightarrow> work_settles st tok out = (w, st1) \<Longrightarrow> ledger_inv b st1"
  using ledger_release[of b st tok]
  by (auto simp: work_settles_def split: prod.splits option.splits)

lemma ledger_run_enter:
  "ledger_inv b st \<Longrightarrow> run_enter env st rq ao = (e, st1) \<Longrightarrow> ledger_inv b st1"
  by (auto simp: run_enter_def createDeferred_def acquire_enter_def ledger_inv_def Let_def
      split: option.splits prod.splits if_splits)

lemma ledger_run_continue:
  "ledger_inv b st \<Longrightarrow> ledger_inv b (run_continue st i p fn ao res)"
  by (cases res) (auto simp: run_continue_def run_resume_def ledger_inv_def settle_def)

lemma ledger_step:
  assumes "ledger_inv b st" and "nonneg_estimator env" and "env_budget env = Some b"
  shows "ledger_inv b (step env st ev)"
proof (cases ev)
  case (CallAcquire rq ao)
  then show ?thesis using ledger_acquire_enter[OF assms(1), of env rq ao]
    by (auto split: prod.splits AcquireEntered.splits)
next
  case (CallRun rq fn ao)
  then show ?thesis using ledger_run_enter[OF assms(1), of env rq ao]
    by (auto split: prod.splits RunEntered.splits)
next
  case (CallRelease t)
  then show ?thesis using ledger_release[OF assms(1)] by simp
next
  case (GateSettles i a)
  then show ?thesis
    using assms(1) ledger_acquire_resume[OF assms]
    by (auto simp: Let_def ledger_run_continue split: prod.splits Task.splits AcquireEntered.splits)
next
  case (Resume i)
  then show ?thesis using assms(1)
    by (auto simp: ledger_run_continue run_deliver_def split: Task.splits AcquireEntered.splits)
next
  case (FnSettles i out)
  then show ?thesis using ledger_work_settles[OF assms(1)] assms(1)
    by (auto split: Task.splits prod.splits)
next
  case (Reaction j)
  then show ?thesis using assms(1) by (auto split: prod.splits)
qed

lemma ledger_exec:
  assumes "nonneg_estimator env" and "env_budget env = Some b"
  shows "ledger_inv b st \<Longrightarrow> ledger_inv b (exec env st evs)"
  unfolding exec_def
  by (induction evs arbitrary: st) (simp_all add: ledger_step[OF _ assms])

lemma created_budget:
  "createLLMBulkhead dflt js opts = Inr (env, st0) \<Longrightarrow>
   env_budget env = map_option budget (tokenBudget opts) \<and> ledger_inv b st0"
  by (auto simp: createLLMBulkhead_def ledger_inv_def split: if_splits)

text \<open>
  C1 (as amended). For a bulkhead created with a token budget whose estimator returns
  non-negative components, in every state reached by any sequence of jobs (calls of
  \<^verbatim>\<open>acquire\<close>, \<^verbatim>\<open>run\<close> and \<^verbatim>\<open>release\<close>, with any answers of the gate and any
  outcomes of the work functions) the counter satisfies
  \<open>0 \<le> inFlightTokens \<le> max 0 budget\<close>, which is \<open>0 \<le> inFlightTokens \<le> budget\<close> when
  the budget is not negative; \<^verbatim>\<open>stats().tokenBudget\<close> shows that counter; and
  \<^verbatim>\<open>releaseTokens\<close> never leaves the counter below zero, whatever amount is released
  in whatever state.
\<close>

theorem inFlightTokens_within_budget:
  assumes "createLLMBulkhead dflt js opts = Inr (env, st0)"
    and "tokenBudget opts = Some tb"
    and "nonneg_estimator env"
  shows "0 \<le> inFlightTokens (exec env st0 evs) \<and>
         inFlightTokens (exec env st0 evs) \<le> max 0 (budget tb) \<and>
         map_option stats_inFlightTokens (stats_tokenBudget (stats env (exec env st0 evs)))
           = Some (inFlightTokens (exec env st0 evs)) \<and>
         (0 \<le> budget tb \<longrightarrow> budget_invariant env (exec env st0 evs)) \<and>
         0 \<le> inFlightTokens (releaseTokens st r)"
proof -
  have b: "env_budget env = Some (budget tb)" and i: "ledger_inv (budget tb) st0"
    using created_budget[OF assms(1)] assms(2) by simp_all
  have inv: "ledger_inv (budget tb) (exec env st0 evs)"
    by (rule ledger_exec[OF assms(3) b i])
  then have "0 \<le> inFlightTokens (exec env st0 evs)"
    and "inFlightTokens (exec env st0 evs) \<le> max 0 (budget tb)"
    by (simp_all add: ledger_inv_def)
  moreover have "0 \<le> inFlightTokens (releaseTokens st r)"
    by (simp add: releaseTokens_def)
  ultimately show ?thesis
    using b by (auto simp: stats_def budget_invariant_def)
qed

theorem inFlightTokens_within_budget_witness:
  "createLLMBulkhead (\<lambda>m c. naiveTokenEstimator) ex_stringify (ex_opts 200 False)
     = Inr (ex_env 200 False, ex_init 200 False) \<and>
   nonneg_estimator (ex_env 200 False) \<and>
   inFlightTokens (exec (ex_env 200 False) (ex_init 200 False)
     [CallAcquire (ex_request None) no_options, GateSettles 0 Grant]) = 120 \<and>
   inFlightTokens (exec (ex_env 200 False) (ex_init 200 False)
     [CallAcquire (ex_request None) no_options, GateSettles 0 Grant,
      CallRelease 0, CallRelease 0]) = 0 \<and>
   budget_invariant (ex_env 200 False) (exec (ex_env 200 False) (ex_init 200 False)
     [CallAcquire (ex_request None) no_options, GateSettles 0 Grant,
      CallRelease 0, CallRelease 0]) \<and>
   (0::int) \<le> inFlightTokens (releaseTokens (ex_init 200 False) 500)"
proof -
  have c: "createLLMBulkhead (\<lambda>m c. naiveTokenEstimator) ex_stringify (ex_opts 200 False)
             = Inr (ex_env 200 False, ex_init 200 False)"
    by (simp add: ex_defs)
  have t: "tokenBudget (ex_opts 200 False)
             = Some \<lparr> budget = 200, budget_estimator = Some (fixed_estimator 60 60),
                      outputCap = None \<rparr>"
    by (simp add: ex_opts_def)
  have n: "nonneg_estimator (ex_env 200 False)"
    by (simp add: nonneg_estimator_def ex_defs)
  have a: "inFlightTokens (exec (ex_env 200 False) (ex_init 200 False)
     [CallAcquire (ex_request None) no_options, GateSettles 0 Grant]) = 120"
    by (simp add: ex_defs op_defs)
  have z: "inFlightTokens (exec (ex_env 200 False) (ex_init 200 False)
     [CallAcquire (ex_request None) no_options, GateSettles 0 Grant,
      CallRelease 0, CallRelease 0]) = 0"
    by (simp add: ex_defs op_defs)
  show ?thesis
    using inFlightTokens_within_budget [OF c t n,
      of "[CallAcquire (ex_request None) no_options, GateSettles 0 Grant,
           CallRelease 0, CallRelease 0]" "ex_init 200 False" 500]
      c n a z
    by simp
qed

text \<open>The upper bound \<open>inFlightTokens \<le> budget\<close> fails for a negative budget, which
  \<^verbatim>\<open>createLLMBulkhead\<close> accepts: the fresh bulkhead with budget \<open>-1\<close> shows
  \<open>inFlightTokens = 0\<close>, above its budget.\<close>

theorem inFlightTokens_within_budget_counterexample:
  "createLLMBulkhead (\<lambda>m c. naiveTokenEstimator) ex_stringify (ex_opts (- 1) False)
     = Inr (ex_env (- 1) False, ex_init (- 1) False) \<and>
   nonneg_estimator (ex_env (- 1) False) \<and>
   stats_tokenBudget (stats (ex_env (- 1) False) (exec (ex_env (- 1) False) (ex_init (- 1) False) []))
     = Some \<lparr> stats_budget = - 1, stats_inFlightTokens = 0, available = 0 \<rparr> \<and>
   \<not> budget_invariant (ex_env (- 1) False) (exec (ex_env (- 1) False) (ex_init (- 1) False) [])"
  by (simp add: nonneg_estimator_def budget_invariant_def ex_defs op_defs)

section \<open>The wrapped token\<close>

lemma release_again: "release (snd (release st t)) t = (None, snd (release st t))"
  by (auto simp: release_def Let_def releaseTokens_def split: prod.splits)

lemma release_released:
  "t < length (tokens st) \<Longrightarrow> released (tokens st ! t) \<Longrightarrow> release st t = (None, st)"
  by (simp add: release_def)

lemma release_repeat: "((\<lambda>s. snd (release s t)) ^^ Suc k) st = snd (release st t)"
proof (induction k)
  case 0
  show ?case by simp
next
  case (Suc k)
  have "((\<lambda>s. snd (release s t)) ^^ Suc (Suc k)) st
          = snd (release (((\<lambda>s. snd (release s t)) ^^ Suc k) st) t)"
    by simp
  also have "\<dots> = snd (release (snd (release st t)) t)"
    using Suc by simp
  finally show ?case by (simp add: release_again)
qed

lemma release_first:
  assumes "t < length (tokens st)" and "\<not> released (tokens st ! t)"
    and "base (tokens st ! t) (bulkhead st) = (exn, g)"
  shows "release st t =
           (exn, st\<lparr> tokens := (tokens st)[t := (tokens st ! t)\<lparr> released := True \<rparr>],
                     bulkhead := g,
                     inFlightTokens := max 0 (inFlightTokens st - reserved (tokens st ! t)) \<rparr>)"
  using assms by (simp add: release_def Let_def releaseTokens_def)

section \<open>Properties preserved by every job\<close>

text \<open>A property of the state that every part of every job preserves is preserved
  by every job.\<close>

lemma step_preserves:
  assumes st: "P st"
    and enter: "\<And>s rq ao e s1. P s \<Longrightarrow> acquire_enter env s rq ao = (e, s1) \<Longrightarrow> P s1"
    and resume: "\<And>s a r g rq res s1. P s \<Longrightarrow> gate_settle (bulkhead s) a = (r, g) \<Longrightarrow>
                   acquire_resume env (s\<lparr> bulkhead := g \<rparr>) rq r = (res, s1) \<Longrightarrow> P s1"
    and rel: "\<And>s t. P s \<Longrightarrow> P (snd (release s t))"
    and renter: "\<And>s rq ao e s1. P s \<Longrightarrow> run_enter env s rq ao = (e, s1) \<Longrightarrow> P s1"
    and setl: "\<And>s p out. P s \<Longrightarrow> P (settle s p out)"
    and calls: "\<And>s c. P s \<Longrightarrow> P (s\<lparr> fn_calls := c \<rparr>)"
    and clean: "\<And>s k p. P s \<Longrightarrow> P (cleanup s k p)"
    and cleans: "\<And>s c. P s \<Longrightarrow> P (s\<lparr> cleanups := c \<rparr>)"
    and tsk: "\<And>s ts. P s \<Longrightarrow> P (s\<lparr> tasks := ts \<rparr>)"
  shows "P (step env st ev)"
proof -
  have cont: "P (run_continue s i p fn ao res)" if "P s" for s i p fn ao res
    using that by (cases res) (auto simp: run_continue_def run_resume_def intro!: tsk setl calls)
  show ?thesis
  proof (cases ev)
    case (CallAcquire rq ao)
    obtain e s1 where e: "acquire_enter env st rq ao = (e, s1)" by (cases "acquire_enter env st rq ao")
    then have "P s1" using enter st by blast
    then show ?thesis using CallAcquire e by (cases e) (auto intro!: tsk)
  next
    case (CallRun rq fn ao)
    obtain e s1 where e: "run_enter env st rq ao = (e, s1)" by (cases "run_enter env st rq ao")
    then have "P s1" using renter st by blast
    then show ?thesis using CallRun e by (cases e) (auto intro!: tsk)
  next
    case (CallRelease t)
    then show ?thesis using rel[OF st] by simp
  next
    case (GateSettles i a)
    obtain r g where g: "gate_settle (bulkhead st) a = (r, g)" by (cases "gate_settle (bulkhead st) a")
    have res: "P s1" if "acquire_resume env (st\<lparr> bulkhead := g \<rparr>) rq r = (res, s1)" for rq res s1
      using resume[OF st g that] .
    show ?thesis
    proof (cases "i < length (tasks st)")
      case False
      then show ?thesis using GateSettles st by simp
    next
      case True
      show ?thesis
      proof (cases "tasks st ! i")
        case (AcquireAtGate rq)
        obtain res s1 where r: "acquire_resume env (st\<lparr> bulkhead := g \<rparr>) rq r = (res, s1)"
          by (cases "acquire_resume env (st\<lparr> bulkhead := g \<rparr>) rq r")
        then show ?thesis using GateSettles True AcquireAtGate g res[OF r] by (simp add: tsk)
      next
        case (RunAwaiting rq p fn ao e)
        obtain res s1 where r: "acquire_resume env (st\<lparr> bulkhead := g \<rparr>) rq r = (res, s1)"
          by (cases "acquire_resume env (st\<lparr> bulkhead := g \<rparr>) rq r")
        then show ?thesis using GateSettles True RunAwaiting g cont[OF res[OF r]] st
          by (cases e) simp_all
      next
        case (RunWorking p tok)
        then show ?thesis using GateSettles True st by simp
      next
        case (RunWorkSettled p w)
        then show ?thesis using GateSettles True st by simp
      qed
    qed
  next
    case (Resume i)
    show ?thesis
    proof (cases "i < length (tasks st)")
      case False
      then show ?thesis using Resume st by simp
    next
      case True
      show ?thesis
      proof (cases "tasks st ! i")
        case (AcquireAtGate rq)
        then show ?thesis using Resume True st by simp
      next
        case (RunAwaiting rq p fn ao e)
        then show ?thesis using Resume True st cont[OF st] by (cases e) simp_all
      next
        case (RunWorking p tok)
        then show ?thesis using Resume True st by simp
      next
        case (RunWorkSettled p w)
        then show ?thesis using Resume True st by (simp add: run_deliver_def tsk setl)
      qed
    qed
  next
    case (FnSettles i out)
    show ?thesis
    proof (cases "i < length (tasks st)")
      case False
      then show ?thesis using FnSettles st by simp
    next
      case True
      show ?thesis
      proof (cases "tasks st ! i")
        case (RunWorking p tok)
        have "P (snd (work_settles st tok out))"
          using rel[OF st, of tok] by (auto simp: work_settles_def split: prod.splits option.splits)
        then show ?thesis using FnSettles True RunWorking
          by (auto split: prod.splits intro!: tsk)
      qed (use FnSettles True st in simp_all)
    qed
  next
    case (Reaction j)
    then show ?thesis using st by (auto split: prod.splits intro!: cleans clean)
  qed
qed

lemma exec_preserves:
  assumes step: "\<And>s ev. P s \<Longrightarrow> P (step env s ev)"
  shows "P st \<Longrightarrow> P (exec env st evs)"
  unfolding exec_def
  by (induction evs arbitrary: st) (simp_all add: step)

lemma exec_Cons: "exec env st (ev # evs) = exec env (step env st ev) evs"
  by (simp add: exec_def)

text \<open>A released token stays released, whatever runs afterwards.\<close>

lemma is_released_step: "is_released st t \<Longrightarrow> is_released (step env st ev) t"
proof (rule step_preserves[where P = "\<lambda>s. is_released s t"], assumption)
  fix s :: "('a, 'b) State" and a r g rq res s1
  assume "is_released s t" and "gate_settle (bulkhead s) a = (r, g)"
    and "acquire_resume env (s\<lparr> bulkhead := g \<rparr>) rq r = (res, s1)"
  then show "is_released s1 t"
    by (cases r)
       (auto simp: is_released_def acquire_resume_def tryReserveTokens_def wrapToken_def Let_def
          nth_append split: if_splits option.splits)
next
  fix s :: "('a, 'b) State" and u
  assume "is_released s t"
  then show "is_released (snd (release s u)) t"
    by (auto simp: is_released_def release_def Let_def releaseTokens_def nth_list_update
        split: prod.splits)
qed (auto simp: is_released_def acquire_enter_def run_enter_def createDeferred_def settle_def
       cleanup_def Let_def split: if_splits option.splits prod.splits)

lemma is_released_exec: "is_released st t \<Longrightarrow> is_released (exec env st evs) t"
  by (rule exec_preserves[where P = "\<lambda>s. is_released s t"]) (rule is_released_step)

lemma ex_admitted_fields:
  "tokens (ex_admitted d) = [\<lparr> base = slot_token 0, reserved = 120, released = False \<rparr>]"
  "inFlightTokens (ex_admitted d) = 120"
  "slots (bulkhead (ex_admitted d)) = [0]"
  by (simp_all add: ex_admitted_def ex_defs op_defs)

section \<open>Tokens made by admission\<close>

lemma ex_env_fields:
  "env_budget (ex_env b d) = Some b"
  "estimator (ex_env b d) = fixed_estimator 60 60"
  "env_timeoutMs (ex_env b d) = Some 30000"
  "env_deduplication (ex_env b d) = d"
  "JSON_stringify (ex_env b d) = ex_stringify"
  by (simp_all add: ex_defs)

lemma reserve_headroom:
  "headroom env st rq \<Longrightarrow>
   tryReserveTokens env st rq
     = (Some (reservation env rq),
        st\<lparr> inFlightTokens := inFlightTokens st + reservation env rq \<rparr>)"
  by (simp add: headroom_def reservation_def tryReserveTokens_def Let_def split: option.splits)

lemma reserve_no_headroom:
  "\<not> headroom env st rq \<Longrightarrow> tryReserveTokens env st rq = (None, st)"
  by (simp add: headroom_def tryReserveTokens_def Let_def split: option.splits)

lemma headroom_bulkhead [simp]: "headroom env (st\<lparr> bulkhead := g \<rparr>) rq = headroom env st rq"
  by (simp add: headroom_def split: option.splits)

lemma admitted_granted:
  assumes "acquire_resume env s rq (Granted sid) = (Ok t, s')"
  shows "headroom env s rq" and "t = length (tokens s)"
    and "s' = s\<lparr> inFlightTokens := inFlightTokens s + reservation env rq,
                  tokens := tokens s @ [\<lparr> base = slot_token sid, reserved = reservation env rq,
                                         released = False \<rparr>] \<rparr>"
proof -
  show h: "headroom env s rq"
    using assms by (cases "headroom env s rq") (simp_all add: acquire_resume_def reserve_no_headroom)
  show "t = length (tokens s)"
    using assms by (auto simp: acquire_resume_def reserve_headroom[OF h] wrapToken_def)
  show "s' = s\<lparr> inFlightTokens := inFlightTokens s + reservation env rq,
                  tokens := tokens s @ [\<lparr> base = slot_token sid, reserved = reservation env rq,
                                         released = False \<rparr>] \<rparr>"
    using assms by (auto simp: acquire_resume_def reserve_headroom[OF h] wrapToken_def)
qed

lemma admitted_faulty:
  assumes "acquire_resume env s rq (GrantedFaulty sid x) = (Ok t, s')"
  shows "headroom env s rq" and "t = length (tokens s)"
    and "s' = s\<lparr> inFlightTokens := inFlightTokens s + reservation env rq,
                  tokens := tokens s @ [\<lparr> base = faulty_token sid x, reserved = reservation env rq,
                                         released = False \<rparr>] \<rparr>"
proof -
  show h: "headroom env s rq"
    using assms by (cases "headroom env s rq") (simp_all add: acquire_resume_def reserve_no_headroom)
  show "t = length (tokens s)"
    using assms by (auto simp: acquire_resume_def reserve_headroom[OF h] wrapToken_def)
  show "s' = s\<lparr> inFlightTokens := inFlightTokens s + reservation env rq,
                  tokens := tokens s @ [\<lparr> base = faulty_token sid x, reserved = reservation env rq,
                                         released = False \<rparr>] \<rparr>"
    using assms by (auto simp: acquire_resume_def reserve_headroom[OF h] wrapToken_def)
qed

text \<open>A wrapped token keeps its base token and its reservation, whatever runs.\<close>

lemma token_kept_step:
  fixes st :: "('v, 'e) State"
  assumes "t < length (tokens st) \<and> base (tokens st ! t) = b \<and> reserved (tokens st ! t) = n"
  shows "t < length (tokens (step env st ev)) \<and> base (tokens (step env st ev) ! t) = b \<and>
         reserved (tokens (step env st ev) ! t) = n"
proof (rule step_preserves[where P = "\<lambda>s. t < length (tokens s) \<and> base (tokens s ! t) = b \<and>
    reserved (tokens s ! t) = n"], rule assms)
  fix s :: "('v, 'e) State" and a r g rq res s1
  assume "t < length (tokens s) \<and> base (tokens s ! t) = b \<and> reserved (tokens s ! t) = n"
    and "gate_settle (bulkhead s) a = (r, g)"
    and "acquire_resume env (s\<lparr> bulkhead := g \<rparr>) rq r = (res, s1)"
  then show "t < length (tokens s1) \<and> base (tokens s1 ! t) = b \<and> reserved (tokens s1 ! t) = n"
    by (cases r)
       (auto simp: acquire_resume_def tryReserveTokens_def wrapToken_def Let_def
          nth_append split: if_splits option.splits)
next
  fix s :: "('v, 'e) State" and u
  assume "t < length (tokens s) \<and> base (tokens s ! t) = b \<and> reserved (tokens s ! t) = n"
  then show "t < length (tokens (snd (release s u))) \<and> base (tokens (snd (release s u)) ! t) = b \<and>
             reserved (tokens (snd (release s u)) ! t) = n"
    by (auto simp: release_def Let_def releaseTokens_def nth_list_update split: prod.splits)
qed (auto simp: acquire_enter_def run_enter_def createDeferred_def settle_def
       cleanup_def Let_def split: if_splits option.splits prod.splits)

lemma token_kept_exec:
  assumes "t < length (tokens st)" and "base (tokens st ! t) = b" and "reserved (tokens st ! t) = n"
  shows "t < length (tokens (exec env st evs))" and "base (tokens (exec env st evs) ! t) = b"
    and "reserved (tokens (exec env st evs) ! t) = n"
proof -
  have "t < length (tokens (exec env st evs)) \<and> base (tokens (exec env st evs) ! t) = b \<and>
        reserved (tokens (exec env st evs) ! t) = n"
    by (rule exec_preserves[where P = "\<lambda>s. t < length (tokens s) \<and> base (tokens s ! t) = b \<and>
          reserved (tokens s ! t) = n"]) (rule token_kept_step, assumption, use assms in simp)
  then show "t < length (tokens (exec env st evs))" and "base (tokens (exec env st evs) ! t) = b"
    and "reserved (tokens (exec env st evs) ! t) = n"
    by simp_all
qed

lemma token_unreleased:
  assumes "base w = b" and "reserved w = n" and "\<not> released w"
  shows "w = \<lparr> base = b, reserved = n, released = False \<rparr>"
  using assms by (cases w) simp

lemma release_slot_token:
  assumes "t < length (tokens st)"
    and "tokens st ! t = \<lparr> base = slot_token sid, reserved = n, released = False \<rparr>"
  shows "release st t =
           (None, st\<lparr> tokens := (tokens st)[t := \<lparr> base = slot_token sid, reserved = n, released = True \<rparr>],
                      bulkhead := slot_release sid (bulkhead st),
                      inFlightTokens := max 0 (inFlightTokens st - n) \<rparr>)"
proof -
  have b: "base (tokens st ! t) (bulkhead st) = (None, slot_release sid (bulkhead st))"
    using assms(2) by (simp add: slot_token_def)
  show ?thesis
    using release_first[OF assms(1) _ b] assms(2) by simp
qed

lemma release_faulty_token:
  assumes "t < length (tokens st)"
    and "tokens st ! t = \<lparr> base = faulty_token sid x, reserved = n, released = False \<rparr>"
  shows "release st t =
           (Some x, st\<lparr> tokens := (tokens st)[t := \<lparr> base = faulty_token sid x, reserved = n, released = True \<rparr>],
                        inFlightTokens := max 0 (inFlightTokens st - n) \<rparr>)"
proof -
  have b: "base (tokens st ! t) (bulkhead st) = (Some x, bulkhead st)"
    using assms(2) by (simp add: faulty_token_def)
  show ?thesis
    using release_first[OF assms(1) _ b] assms(2) by simp
qed

lemma later_release_slot:
  assumes "t < length (tokens st)"
    and "tokens st ! t = \<lparr> base = slot_token sid, reserved = n, released = False \<rparr>"
    and "\<not> released (tokens (exec env st evs) ! t)"
  shows "release (exec env st evs) t
           = (None, (exec env st evs)
                \<lparr> tokens := (tokens (exec env st evs))
                     [t := \<lparr> base = slot_token sid, reserved = n, released = True \<rparr>],
                  bulkhead := slot_release sid (bulkhead (exec env st evs)),
                  inFlightTokens := max 0 (inFlightTokens (exec env st evs) - n) \<rparr>)"
proof -
  have p: "base (tokens st ! t) = slot_token sid" "reserved (tokens st ! t) = n"
    by (simp_all add: assms(2))
  note q = token_kept_exec[OF assms(1) p, of env evs]
  show ?thesis
    by (rule release_slot_token[OF q(1) token_unreleased[OF q(2) q(3) assms(3)]])
qed

lemma later_release_faulty:
  assumes "t < length (tokens st)"
    and "tokens st ! t = \<lparr> base = faulty_token sid x, reserved = n, released = False \<rparr>"
    and "\<not> released (tokens (exec env st evs) ! t)"
  shows "release (exec env st evs) t
           = (Some x, (exec env st evs)
                \<lparr> tokens := (tokens (exec env st evs))
                     [t := \<lparr> base = faulty_token sid x, reserved = n, released = True \<rparr>],
                  inFlightTokens := max 0 (inFlightTokens (exec env st evs) - n) \<rparr>)"
proof -
  have p: "base (tokens st ! t) = faulty_token sid x" "reserved (tokens st ! t) = n"
    by (simp_all add: assms(2))
  note q = token_kept_exec[OF assms(1) p, of env evs]
  show ?thesis
    by (rule release_faulty_token[OF q(1) token_unreleased[OF q(2) q(3) assms(3)]])
qed

lemma acquire_job_granted:
  assumes "i < length (tasks st)" and "tasks st ! i = AcquireAtGate rq" and "headroom env st rq"
  shows "step env st (GateSettles i Grant)
           = st\<lparr> bulkhead := (bulkhead st)\<lparr> slots := slots (bulkhead st) @ [next_slot (bulkhead st)],
                                            next_slot := Suc (next_slot (bulkhead st)) \<rparr>,
                  inFlightTokens := inFlightTokens st + reservation env rq,
                  tokens := tokens st @ [\<lparr> base = slot_token (next_slot (bulkhead st)),
                                          reserved = reservation env rq, released = False \<rparr>],
                  tasks := remove_at i (tasks st) \<rparr>"
  using assms
  by (simp add: gate_settle_def acquire_resume_def reserve_headroom wrapToken_def)

lemma acquire_job_faulty:
  assumes "i < length (tasks st)" and "tasks st ! i = AcquireAtGate rq" and "headroom env st rq"
  shows "step env st (GateSettles i (GrantFaulty x))
           = st\<lparr> bulkhead := (bulkhead st)\<lparr> slots := slots (bulkhead st) @ [next_slot (bulkhead st)],
                                            next_slot := Suc (next_slot (bulkhead st)) \<rparr>,
                  inFlightTokens := inFlightTokens st + reservation env rq,
                  tokens := tokens st @ [\<lparr> base = faulty_token (next_slot (bulkhead st)) x,
                                          reserved = reservation env rq, released = False \<rparr>],
                  tasks := remove_at i (tasks st) \<rparr>"
  using assms
  by (simp add: gate_settle_def acquire_resume_def reserve_headroom wrapToken_def)

lemma run_job_granted:
  assumes "i < length (tasks st)" and "tasks st ! i = RunAwaiting rq p fn ao AtGate"
    and "headroom env st rq"
  shows "step env st (GateSettles i Grant)
           = st\<lparr> bulkhead := (bulkhead st)\<lparr> slots := slots (bulkhead st) @ [next_slot (bulkhead st)],
                                            next_slot := Suc (next_slot (bulkhead st)) \<rparr>,
                  inFlightTokens := inFlightTokens st + reservation env rq,
                  tokens := tokens st @ [\<lparr> base = slot_token (next_slot (bulkhead st)),
                                          reserved = reservation env rq, released = False \<rparr>],
                  fn_calls := fn_calls st @ [(fn, signal ao)],
                  tasks := (tasks st)[i := RunWorking p (length (tokens st))] \<rparr>"
  using assms
  by (simp add: gate_settle_def acquire_resume_def reserve_headroom wrapToken_def
      run_continue_def run_resume_def)

lemma run_job_faulty:
  assumes "i < length (tasks st)" and "tasks st ! i = RunAwaiting rq p fn ao AtGate"
    and "headroom env st rq"
  shows "step env st (GateSettles i (GrantFaulty x))
           = st\<lparr> bulkhead := (bulkhead st)\<lparr> slots := slots (bulkhead st) @ [next_slot (bulkhead st)],
                                            next_slot := Suc (next_slot (bulkhead st)) \<rparr>,
                  inFlightTokens := inFlightTokens st + reservation env rq,
                  tokens := tokens st @ [\<lparr> base = faulty_token (next_slot (bulkhead st)) x,
                                          reserved = reservation env rq, released = False \<rparr>],
                  fn_calls := fn_calls st @ [(fn, signal ao)],
                  tasks := (tasks st)[i := RunWorking p (length (tokens st))] \<rparr>"
  using assms
  by (simp add: gate_settle_def acquire_resume_def reserve_headroom wrapToken_def
      run_continue_def run_resume_def)

lemma ex_waiting_fields:
  "tasks ex_waiting = [AcquireAtGate (ex_request None)]"
  "tokens ex_waiting = []"
  "inFlightTokens ex_waiting = 0"
  "slots (bulkhead ex_waiting) = []"
  "next_slot (bulkhead ex_waiting) = 0"
  by (simp_all add: ex_waiting_def ex_defs op_defs)

lemma ex_reservation:
  "reservation (ex_env b d) rq = 120"
  "headroom (ex_env b d) st rq \<longleftrightarrow> inFlightTokens st + 120 \<le> b"
  by (auto simp: reservation_def headroom_def ex_defs)

text \<open>
  C4. The wrapped token's \<^verbatim>\<open>release()\<close> is idempotent. For a wrapped token with the
  gate's slot token of slot \<open>sid\<close>, reservation \<open>n\<close>, not yet released, the first call
  frees the slot and returns the reservation; a second call changes nothing and throws
  nothing; any number of calls leaves the state one call leaves; and after any further
  jobs a call is still a no-op. The token that a successful \<^verbatim>\<open>_acquire\<close> makes, after
  the gate granted slot \<open>sid'\<close>, is such a token, and its reservation is exactly what
  \<^verbatim>\<open>tryReserveTokens\<close> added to the counter for the request: cost \<open>input + maxOutput\<close>
  with a budget, 0 without. It stays so through any later jobs until it is released,
  so that its first release, whenever it comes, frees slot \<open>sid'\<close> and takes exactly
  that amount off the counter. The job of a suspended \<^verbatim>\<open>acquire\<close> at the gate's grant
  is this admission, and so is that of a suspended \<^verbatim>\<open>run\<close>, which then holds the
  token it made: after that job and any later jobs, the first release of the token
  frees the granted slot and takes exactly the request's reservation off the counter.
\<close>

theorem wrapped_release_idempotent:
  assumes "t < length (tokens st)"
    and "tokens st ! t = \<lparr> base = slot_token sid, reserved = n, released = False \<rparr>"
  shows "release st t =
           (None, st\<lparr> tokens := (tokens st)[t := \<lparr> base = slot_token sid, reserved = n, released = True \<rparr>],
                      bulkhead := slot_release sid (bulkhead st),
                      inFlightTokens := max 0 (inFlightTokens st - n) \<rparr>) \<and>
         sid \<notin> set (slots (bulkhead (snd (release st t)))) \<and>
         release (snd (release st t)) t = (None, snd (release st t)) \<and>
         ((\<lambda>s. snd (release s t)) ^^ Suc k) st = snd (release st t) \<and>
         release (exec env (snd (release st t)) evs) t = (None, exec env (snd (release st t)) evs) \<and>
         (\<not> released (tokens (exec env st evs') ! t) \<longrightarrow>
            release (exec env st evs') t
              = (None, (exec env st evs')
                   \<lparr> tokens := (tokens (exec env st evs'))
                        [t := \<lparr> base = slot_token sid, reserved = n, released = True \<rparr>],
                     bulkhead := slot_release sid (bulkhead (exec env st evs')),
                     inFlightTokens := max 0 (inFlightTokens (exec env st evs') - n) \<rparr>)) \<and>
         (acquire_resume env s rq (Granted sid') = (Ok t', s') \<longrightarrow>
            t' = length (tokens s) \<and>
            s' = s\<lparr> inFlightTokens := inFlightTokens s + reservation env rq,
                     tokens := tokens s @ [\<lparr> base = slot_token sid', reserved = reservation env rq,
                                            released = False \<rparr>] \<rparr> \<and>
            (\<not> released (tokens (exec env s' evs') ! t') \<longrightarrow>
               release (exec env s' evs') t'
                 = (None, (exec env s' evs')
                      \<lparr> tokens := (tokens (exec env s' evs'))
                           [t' := \<lparr> base = slot_token sid', reserved = reservation env rq,
                                    released = True \<rparr>],
                        bulkhead := slot_release sid' (bulkhead (exec env s' evs')),
                        inFlightTokens
                          := max 0 (inFlightTokens (exec env s' evs') - reservation env rq) \<rparr>))) \<and>
         (i < length (tasks s0) \<and> tasks s0 ! i = AcquireAtGate rq \<and> headroom env s0 rq \<longrightarrow>
            step env s0 (GateSettles i Grant)
              = s0\<lparr> bulkhead := (bulkhead s0)\<lparr> slots := slots (bulkhead s0) @ [next_slot (bulkhead s0)],
                                               next_slot := Suc (next_slot (bulkhead s0)) \<rparr>,
                     inFlightTokens := inFlightTokens s0 + reservation env rq,
                     tokens := tokens s0 @ [\<lparr> base = slot_token (next_slot (bulkhead s0)),
                                             reserved = reservation env rq, released = False \<rparr>],
                     tasks := remove_at i (tasks s0) \<rparr>) \<and>
         (i < length (tasks s0) \<and> tasks s0 ! i = RunAwaiting rq p fn ao AtGate \<and>
          headroom env s0 rq \<longrightarrow>
            tokens (step env s0 (GateSettles i Grant))
              = tokens s0 @ [\<lparr> base = slot_token (next_slot (bulkhead s0)),
                               reserved = reservation env rq, released = False \<rparr>] \<and>
            inFlightTokens (step env s0 (GateSettles i Grant))
              = inFlightTokens s0 + reservation env rq \<and>
            tasks (step env s0 (GateSettles i Grant))
              = (tasks s0)[i := RunWorking p (length (tokens s0))]) \<and>
         (i < length (tasks s0) \<and> headroom env s0 rq \<and>
          (tasks s0 ! i = AcquireAtGate rq \<or> tasks s0 ! i = RunAwaiting rq p fn ao AtGate) \<and>
          \<not> released (tokens (exec env s0 (GateSettles i Grant # evs')) ! length (tokens s0)) \<longrightarrow>
            release (exec env s0 (GateSettles i Grant # evs')) (length (tokens s0))
              = (None, (exec env s0 (GateSettles i Grant # evs'))
                   \<lparr> tokens := (tokens (exec env s0 (GateSettles i Grant # evs')))
                        [length (tokens s0)
                           := \<lparr> base = slot_token (next_slot (bulkhead s0)),
                                reserved = reservation env rq, released = True \<rparr>],
                     bulkhead := slot_release (next_slot (bulkhead s0))
                                   (bulkhead (exec env s0 (GateSettles i Grant # evs'))),
                     inFlightTokens
                       := max 0 (inFlightTokens (exec env s0 (GateSettles i Grant # evs'))
                                 - reservation env rq) \<rparr>))"
proof -
  have f: "release st t =
           (None, st\<lparr> tokens := (tokens st)[t := \<lparr> base = slot_token sid, reserved = n, released = True \<rparr>],
                      bulkhead := slot_release sid (bulkhead st),
                      inFlightTokens := max 0 (inFlightTokens st - n) \<rparr>)"
    by (rule release_slot_token[OF assms])
  have "is_released (snd (release st t)) t"
    using assms(1) by (simp add: f is_released_def)
  then have "is_released (exec env (snd (release st t)) evs) t"
    by (rule is_released_exec)
  then have l: "release (exec env (snd (release st t)) evs) t = (None, exec env (snd (release st t)) evs)"
    by (simp add: is_released_def release_released)
  have s: "sid \<notin> set (slots (bulkhead (snd (release st t))))"
    by (simp add: f slot_release_def)
  have r: "((\<lambda>s. snd (release s t)) ^^ Suc k) st = snd (release st t)"
    by (rule release_repeat)
  have a: "t' = length (tokens s) \<and>
            s' = s\<lparr> inFlightTokens := inFlightTokens s + reservation env rq,
                     tokens := tokens s @ [\<lparr> base = slot_token sid', reserved = reservation env rq,
                                            released = False \<rparr>] \<rparr> \<and>
            (\<not> released (tokens (exec env s' evs') ! t') \<longrightarrow>
               release (exec env s' evs') t'
                 = (None, (exec env s' evs')
                      \<lparr> tokens := (tokens (exec env s' evs'))
                           [t' := \<lparr> base = slot_token sid', reserved = reservation env rq,
                                    released = True \<rparr>],
                        bulkhead := slot_release sid' (bulkhead (exec env s' evs')),
                        inFlightTokens
                          := max 0 (inFlightTokens (exec env s' evs') - reservation env rq) \<rparr>))"
    if adm: "acquire_resume env s rq (Granted sid') = (Ok t', s')"
  proof -
    note m = admitted_granted[OF adm]
    have p: "t' < length (tokens s')" "base (tokens s' ! t') = slot_token sid'"
      "reserved (tokens s' ! t') = reservation env rq"
      by (simp_all add: m(2) m(3))
    note q = token_kept_exec[OF p, of env evs']
    have "release (exec env s' evs') t'
                 = (None, (exec env s' evs')
                      \<lparr> tokens := (tokens (exec env s' evs'))
                           [t' := \<lparr> base = slot_token sid', reserved = reservation env rq,
                                    released = True \<rparr>],
                        bulkhead := slot_release sid' (bulkhead (exec env s' evs')),
                        inFlightTokens
                          := max 0 (inFlightTokens (exec env s' evs') - reservation env rq) \<rparr>)"
      if "\<not> released (tokens (exec env s' evs') ! t')"
      by (rule release_slot_token[OF q(1) token_unreleased[OF q(2) q(3) that]])
    then show ?thesis using m(2) m(3) by blast
  qed
  have j: "step env s0 (GateSettles i Grant)
              = s0\<lparr> bulkhead := (bulkhead s0)\<lparr> slots := slots (bulkhead s0) @ [next_slot (bulkhead s0)],
                                               next_slot := Suc (next_slot (bulkhead s0)) \<rparr>,
                     inFlightTokens := inFlightTokens s0 + reservation env rq,
                     tokens := tokens s0 @ [\<lparr> base = slot_token (next_slot (bulkhead s0)),
                                             reserved = reservation env rq, released = False \<rparr>],
                     tasks := remove_at i (tasks s0) \<rparr>"
    if "i < length (tasks s0)" and "tasks s0 ! i = AcquireAtGate rq" and "headroom env s0 rq"
    by (rule acquire_job_granted[OF that])
  have j': "tokens (step env s0 (GateSettles i Grant))
              = tokens s0 @ [\<lparr> base = slot_token (next_slot (bulkhead s0)),
                               reserved = reservation env rq, released = False \<rparr>] \<and>
            inFlightTokens (step env s0 (GateSettles i Grant))
              = inFlightTokens s0 + reservation env rq \<and>
            tasks (step env s0 (GateSettles i Grant))
              = (tasks s0)[i := RunWorking p (length (tokens s0))]"
    if "i < length (tasks s0)" and "tasks s0 ! i = RunAwaiting rq p fn ao AtGate"
      and "headroom env s0 rq"
    unfolding run_job_granted[OF that] by simp
  have e: "release (exec env st evs') t
              = (None, (exec env st evs')
                   \<lparr> tokens := (tokens (exec env st evs'))
                        [t := \<lparr> base = slot_token sid, reserved = n, released = True \<rparr>],
                     bulkhead := slot_release sid (bulkhead (exec env st evs')),
                     inFlightTokens := max 0 (inFlightTokens (exec env st evs') - n) \<rparr>)"
    if "\<not> released (tokens (exec env st evs') ! t)"
    by (rule later_release_slot[OF assms that])
  have x: "release (exec env s0 (GateSettles i Grant # evs')) (length (tokens s0))
              = (None, (exec env s0 (GateSettles i Grant # evs'))
                   \<lparr> tokens := (tokens (exec env s0 (GateSettles i Grant # evs')))
                        [length (tokens s0)
                           := \<lparr> base = slot_token (next_slot (bulkhead s0)),
                                reserved = reservation env rq, released = True \<rparr>],
                     bulkhead := slot_release (next_slot (bulkhead s0))
                                   (bulkhead (exec env s0 (GateSettles i Grant # evs'))),
                     inFlightTokens
                       := max 0 (inFlightTokens (exec env s0 (GateSettles i Grant # evs'))
                                 - reservation env rq) \<rparr>)"
    if "i < length (tasks s0)" and "headroom env s0 rq"
      and "tasks s0 ! i = AcquireAtGate rq \<or> tasks s0 ! i = RunAwaiting rq p fn ao AtGate"
      and n: "\<not> released (tokens (exec env s0 (GateSettles i Grant # evs')) ! length (tokens s0))"
  proof -
    have "tokens (step env s0 (GateSettles i Grant))
              = tokens s0 @ [\<lparr> base = slot_token (next_slot (bulkhead s0)),
                               reserved = reservation env rq, released = False \<rparr>]"
      using that(3)
    proof
      assume "tasks s0 ! i = AcquireAtGate rq"
      then show ?thesis by (simp only: acquire_job_granted[OF that(1) _ that(2)]) simp
    next
      assume "tasks s0 ! i = RunAwaiting rq p fn ao AtGate"
      then show ?thesis by (simp only: run_job_granted[OF that(1) _ that(2)]) simp
    qed
    then have k: "length (tokens s0) < length (tokens (step env s0 (GateSettles i Grant)))"
      "tokens (step env s0 (GateSettles i Grant)) ! length (tokens s0)
         = \<lparr> base = slot_token (next_slot (bulkhead s0)),
              reserved = reservation env rq, released = False \<rparr>"
      by simp_all
    show ?thesis
      using later_release_slot[OF k, of env evs'] n unfolding exec_Cons by blast
  qed
  from f s release_again[of st t] r l e a j j' x show ?thesis
    by blast
qed

theorem wrapped_release_idempotent_witness:
  "0 < length (tokens (ex_admitted False)) \<and>
   tokens (ex_admitted False) ! 0 = \<lparr> base = slot_token 0, reserved = 120, released = False \<rparr> \<and>
   slots (bulkhead (ex_admitted False)) = [0] \<and>
   inFlightTokens (ex_admitted False) = 120 \<and>
   slots (bulkhead (snd (release (ex_admitted False) 0))) = [] \<and>
   inFlightTokens (snd (release (ex_admitted False) 0)) = 0 \<and>
   release (snd (release (ex_admitted False) 0)) 0 = (None, snd (release (ex_admitted False) 0)) \<and>
   ((\<lambda>s. snd (release s 0)) ^^ Suc 2) (ex_admitted False) = snd (release (ex_admitted False) 0) \<and>
   release (exec (ex_env 200 False) (snd (release (ex_admitted False) 0)) [CallRelease 0]) 0
     = (None, exec (ex_env 200 False) (snd (release (ex_admitted False) 0)) [CallRelease 0]) \<and>
   \<not> released (tokens (exec (ex_env 200 False) (ex_admitted False)
         [CallAcquire (ex_request None) no_options]) ! 0) \<and>
   inFlightTokens (snd (release (exec (ex_env 200 False) (ex_admitted False)
         [CallAcquire (ex_request None) no_options]) 0)) = 0 \<and>
   tasks ex_waiting ! 0 = AcquireAtGate (ex_request None) \<and>
   headroom (ex_env 200 False) ex_waiting (ex_request None) \<and>
   reservation (ex_env 200 False) (ex_request None) = 120 \<and>
   step (ex_env 200 False) ex_waiting (GateSettles 0 Grant) = ex_admitted False \<and>
   \<not> released (tokens (exec (ex_env 200 False) ex_waiting
         [GateSettles 0 Grant, CallAcquire (ex_request None) no_options]) ! 0) \<and>
   inFlightTokens (snd (release (exec (ex_env 200 False) ex_waiting
         [GateSettles 0 Grant, CallAcquire (ex_request None) no_options]) 0)) = 0 \<and>
   slots (bulkhead (snd (release (exec (ex_env 200 False) ex_waiting
         [GateSettles 0 Grant, CallAcquire (ex_request None) no_options]) 0))) = [] \<and>
   acquire_resume (ex_env 200 False) ex_waiting (ex_request None) (Granted 0)
     = (Ok 0, ex_waiting\<lparr> inFlightTokens := 120,
                tokens := [\<lparr> base = slot_token 0, reserved = 120, released = False \<rparr>] \<rparr>) \<and>
   \<not> released (tokens (exec (ex_env 200 False)
         (ex_waiting\<lparr> inFlightTokens := 120,
            tokens := [\<lparr> base = slot_token 0, reserved = 120, released = False \<rparr>] \<rparr>)
         [CallAcquire (ex_request None) no_options]) ! 0) \<and>
   inFlightTokens (snd (release (exec (ex_env 200 False)
         (ex_waiting\<lparr> inFlightTokens := 120,
            tokens := [\<lparr> base = slot_token 0, reserved = 120, released = False \<rparr>] \<rparr>)
         [CallAcquire (ex_request None) no_options]) 0)) = 0 \<and>
   tasks ex_queued ! 0 = RunAwaiting (ex_request None) 0 7 no_options AtGate \<and>
   headroom (ex_env 200 True) ex_queued (ex_request None) \<and>
   tokens (step (ex_env 200 True) ex_queued (GateSettles 0 Grant))
     = [\<lparr> base = slot_token 0, reserved = 120, released = False \<rparr>] \<and>
   inFlightTokens (step (ex_env 200 True) ex_queued (GateSettles 0 Grant)) = 120 \<and>
   tasks (step (ex_env 200 True) ex_queued (GateSettles 0 Grant)) = [RunWorking 0 0] \<and>
   \<not> released (tokens (exec (ex_env 200 True) ex_queued [GateSettles 0 Grant]) ! 0) \<and>
   inFlightTokens (snd (release (exec (ex_env 200 True) ex_queued [GateSettles 0 Grant]) 0)) = 0"
proof -
  let ?E = "ex_env 200 False"
  let ?S = "ex_waiting\<lparr> inFlightTokens := 120,
              tokens := [\<lparr> base = slot_token 0, reserved = 120, released = False \<rparr>] \<rparr>"
  let ?X = "exec ?E ?S [CallAcquire (ex_request None) no_options]"
  let ?A = "exec ?E (ex_admitted False) [CallAcquire (ex_request None) no_options]"
  let ?W = "exec ?E ex_waiting [GateSettles 0 Grant, CallAcquire (ex_request None) no_options]"
  let ?Q = "exec (ex_env 200 True) ex_queued [GateSettles 0 Grant]"
  have l: "0 < length (tokens (ex_admitted False))"
    and t: "tokens (ex_admitted False) ! 0 = \<lparr> base = slot_token 0, reserved = 120, released = False \<rparr>"
    and s: "slots (bulkhead (ex_admitted False)) = [0]"
    and i: "inFlightTokens (ex_admitted False) = 120"
    by (simp_all add: ex_admitted_fields)
  have tw: "tasks ex_waiting ! 0 = AcquireAtGate (ex_request None)"
    and lw: "0 < length (tasks ex_waiting)"
    and hw: "headroom ?E ex_waiting (ex_request None)"
    and rw: "reservation ?E (ex_request None) = 120"
    by (simp_all add: ex_waiting_fields ex_reservation)
  have adm: "acquire_resume ?E ex_waiting (ex_request None) (Granted 0) = (Ok 0, ?S)"
    by (simp add: acquire_resume_def reserve_headroom[OF hw] rw wrapToken_def ex_waiting_fields)
  have x: "?X = ?S"
    by (simp add: exec_def acquire_enter_def ex_env_fields fixed_estimator_def)
  have nr: "\<not> released (tokens ?X ! 0)"
    by (simp add: x)
  have g': "step ?E ex_waiting (GateSettles 0 Grant) = ex_admitted False"
    by (simp add: ex_admitted_def ex_waiting_def exec_def)
  have xa: "?A = ex_admitted False"
    by (simp add: exec_def acquire_enter_def ex_env_fields fixed_estimator_def i)
  have xw: "?W = ex_admitted False"
    by (simp only: exec_Cons[of _ _ "GateSettles 0 Grant"] g' xa)
  have na: "\<not> released (tokens ?A ! 0)" and nw: "\<not> released (tokens ?W ! 0)"
    by (simp_all only: xa xw t) simp_all
  note w = wrapped_release_idempotent [OF l t, where k = 2 and env = ?E
      and evs = "[CallRelease 0]" and s = ex_waiting and rq = "ex_request None"
      and sid' = 0 and t' = 0 and s' = ?S and evs' = "[CallAcquire (ex_request None) no_options]"
      and i = 0 and ?s0.0 = ex_waiting and p = 0 and fn = 7 and ao = no_options]
  have f: "release (ex_admitted False) 0 =
           (None, (ex_admitted False)\<lparr> tokens := (tokens (ex_admitted False))[0 := \<lparr> base = slot_token 0, reserved = 120, released = True \<rparr>],
                      bulkhead := slot_release 0 (bulkhead (ex_admitted False)),
                      inFlightTokens := max 0 (inFlightTokens (ex_admitted False) - 120) \<rparr>)"
    using w by blast
  have s': "slots (bulkhead (snd (release (ex_admitted False) 0))) = []"
    and i': "inFlightTokens (snd (release (ex_admitted False) 0)) = 0"
    by (simp_all add: f s i slot_release_def)
  have ra: "release ?A 0
              = (None, ?A\<lparr> tokens := (tokens ?A)
                        [0 := \<lparr> base = slot_token 0, reserved = 120, released = True \<rparr>],
                     bulkhead := slot_release 0 (bulkhead ?A),
                     inFlightTokens := max 0 (inFlightTokens ?A - 120) \<rparr>)"
    using w na by blast
  have ra': "inFlightTokens (snd (release ?A 0)) = 0"
    unfolding ra by (simp add: xa i)
  have r: "release ?X 0
                 = (None, ?X
                      \<lparr> tokens := (tokens ?X)
                           [0 := \<lparr> base = slot_token 0, reserved = reservation ?E (ex_request None),
                                    released = True \<rparr>],
                        bulkhead := slot_release 0 (bulkhead ?X),
                        inFlightTokens
                          := max 0 (inFlightTokens ?X - reservation ?E (ex_request None)) \<rparr>)"
    using w adm nr by blast
  have r': "inFlightTokens (snd (release ?X 0)) = 0"
    unfolding r by (simp add: rw x)
  have lt: "length (tokens ex_waiting) = 0" and ns: "next_slot (bulkhead ex_waiting) = 0"
    by (simp_all add: ex_waiting_fields)
  have rj: "release ?W (length (tokens ex_waiting))
              = (None, ?W
                   \<lparr> tokens := (tokens ?W)
                        [length (tokens ex_waiting)
                           := \<lparr> base = slot_token (next_slot (bulkhead ex_waiting)),
                                reserved = reservation ?E (ex_request None), released = True \<rparr>],
                     bulkhead := slot_release (next_slot (bulkhead ex_waiting)) (bulkhead ?W),
                     inFlightTokens := max 0 (inFlightTokens ?W - reservation ?E (ex_request None)) \<rparr>)"
    using w lw hw tw nw unfolding lt by blast
  have rj': "inFlightTokens (snd (release ?W 0)) = 0"
    and rj'': "slots (bulkhead (snd (release ?W 0))) = []"
    using rj unfolding lt ns by (simp_all add: rw xw i s slot_release_def)
  have tq: "tasks ex_queued ! 0 = RunAwaiting (ex_request None) 0 7 no_options AtGate"
    and lq: "0 < length (tasks ex_queued)"
    and hq: "headroom (ex_env 200 True) ex_queued (ex_request None)"
    and rq: "reservation (ex_env 200 True) (ex_request None) = 120"
    and fq: "tokens ex_queued = []" "inFlightTokens ex_queued = 0"
      "next_slot (bulkhead ex_queued) = 0"
      "tasks ex_queued = [RunAwaiting (ex_request None) 0 7 no_options AtGate]"
    by (simp_all add: ex_reservation) (simp_all add: ex_queued_def ex_defs op_defs)
  note w' = wrapped_release_idempotent [OF l t, where k = 2 and env = "ex_env 200 True"
      and evs = "[]" and s = ex_queued and rq = "ex_request None"
      and sid' = 0 and t' = 0 and s' = ex_queued and evs' = "[]"
      and i = 0 and ?s0.0 = ex_queued and p = 0 and fn = 7 and ao = no_options]
  have q1: "tokens (step (ex_env 200 True) ex_queued (GateSettles 0 Grant))
              = tokens ex_queued @ [\<lparr> base = slot_token (next_slot (bulkhead ex_queued)),
                               reserved = reservation (ex_env 200 True) (ex_request None),
                               released = False \<rparr>]"
    and q2: "inFlightTokens (step (ex_env 200 True) ex_queued (GateSettles 0 Grant))
              = inFlightTokens ex_queued + reservation (ex_env 200 True) (ex_request None)"
    and q3: "tasks (step (ex_env 200 True) ex_queued (GateSettles 0 Grant))
              = (tasks ex_queued)[0 := RunWorking 0 (length (tokens ex_queued))]"
    using w' lq tq hq by blast+
  have q1': "tokens (step (ex_env 200 True) ex_queued (GateSettles 0 Grant))
     = [\<lparr> base = slot_token 0, reserved = 120, released = False \<rparr>]"
    and q2': "inFlightTokens (step (ex_env 200 True) ex_queued (GateSettles 0 Grant)) = 120"
    and q3': "tasks (step (ex_env 200 True) ex_queued (GateSettles 0 Grant)) = [RunWorking 0 0]"
    unfolding q1 q2 q3 by (simp_all add: fq rq)
  have xq: "?Q = step (ex_env 200 True) ex_queued (GateSettles 0 Grant)"
    by (simp add: exec_def)
  note [simp del] = step.simps
  have nq: "\<not> released (tokens ?Q ! 0)"
    by (simp add: xq q1')
  have lq0: "length (tokens ex_queued) = 0"
    by (simp add: fq)
  have rq1: "release ?Q (length (tokens ex_queued))
              = (None, ?Q
                   \<lparr> tokens := (tokens ?Q)
                        [length (tokens ex_queued)
                           := \<lparr> base = slot_token (next_slot (bulkhead ex_queued)),
                                reserved = reservation (ex_env 200 True) (ex_request None),
                                released = True \<rparr>],
                     bulkhead := slot_release (next_slot (bulkhead ex_queued)) (bulkhead ?Q),
                     inFlightTokens
                       := max 0 (inFlightTokens ?Q - reservation (ex_env 200 True) (ex_request None)) \<rparr>)"
    using w' lq hq tq nq unfolding lq0 by blast
  have rq2: "inFlightTokens (snd (release ?Q 0)) = 0"
    using rq1 unfolding lq0 by (simp add: rq xq q2')
  from l t s i s' i' w na ra' tw hw rw g' nw rj' rj'' adm nr r' tq hq q1' q2' q3' nq rq2
  show ?thesis by blast
qed

lemma ex_faulty_fields:
  "tokens ex_faulty
     = [\<lparr> base = faulty_token 0 (OtherError ''release failed''), reserved = 120, released = False \<rparr>]"
  "inFlightTokens ex_faulty = 120"
  "slots (bulkhead ex_faulty) = [0]"
  "tasks ex_faulty = []"
  by (simp_all add: ex_faulty_def ex_defs op_defs)

text \<open>
  C10. Let the gate grant a slot whose token's \<^verbatim>\<open>release()\<close> throws \<open>x\<close>, and let
  \<^verbatim>\<open>_acquire\<close> succeed with it: the wrapped token \<open>t\<close> it makes holds that slot token
  and, as its reservation, exactly what \<^verbatim>\<open>tryReserveTokens\<close> added to the counter
  for the request; the job of a suspended \<^verbatim>\<open>acquire\<close> at such a grant is this
  admission, and so is that of a suspended \<^verbatim>\<open>run\<close>. After any later jobs, as long as \<open>t\<close> is not released, its first
  \<^verbatim>\<open>release()\<close> throws \<open>x\<close> (it is not swallowed), marks the token released all the
  same and takes exactly the reservation off the counter (the \<^verbatim>\<open>finally\<close> block
  ran); a second call, at once or after any further jobs, is a no-op, so the
  reservation is returned once and the base release is not tried again. So it is
  for the token made by the job of a suspended \<^verbatim>\<open>acquire\<close> or \<^verbatim>\<open>run\<close>, after that
  job and any later jobs: its first release throws \<open>x\<close> and takes exactly the
  request's reservation off the counter. The same
  holds of any wrapped token \<open>u\<close> whose base token's \<^verbatim>\<open>release()\<close> throws \<open>y\<close> and
  leaves the gate as \<open>g\<close>; when a \<^verbatim>\<open>run\<close> call holds it, \<^verbatim>\<open>work\<close> is rejected with
  \<open>y\<close>, whatever the work function gave.
\<close>

theorem wrapped_release_base_throws:
  assumes "acquire_resume env s rq (GrantedFaulty sid x) = (Ok t, st0)"
  shows "t = length (tokens s) \<and>
         st0 = s\<lparr> inFlightTokens := inFlightTokens s + reservation env rq,
                   tokens := tokens s @ [\<lparr> base = faulty_token sid x, reserved = reservation env rq,
                                          released = False \<rparr>] \<rparr> \<and>
         (\<not> released (tokens (exec env st0 evs) ! t) \<longrightarrow>
            release (exec env st0 evs) t
              = (Some x, (exec env st0 evs)
                   \<lparr> tokens := (tokens (exec env st0 evs))
                        [t := \<lparr> base = faulty_token sid x, reserved = reservation env rq,
                                released = True \<rparr>],
                     inFlightTokens
                       := max 0 (inFlightTokens (exec env st0 evs) - reservation env rq) \<rparr>) \<and>
            release (snd (release (exec env st0 evs) t)) t
              = (None, snd (release (exec env st0 evs) t)) \<and>
            release (exec env (snd (release (exec env st0 evs) t)) evs') t
              = (None, exec env (snd (release (exec env st0 evs) t)) evs')) \<and>
         (i < length (tasks s0) \<and> tasks s0 ! i = AcquireAtGate rq \<and> headroom env s0 rq \<longrightarrow>
            step env s0 (GateSettles i (GrantFaulty x))
              = s0\<lparr> bulkhead := (bulkhead s0)\<lparr> slots := slots (bulkhead s0) @ [next_slot (bulkhead s0)],
                                               next_slot := Suc (next_slot (bulkhead s0)) \<rparr>,
                     inFlightTokens := inFlightTokens s0 + reservation env rq,
                     tokens := tokens s0 @ [\<lparr> base = faulty_token (next_slot (bulkhead s0)) x,
                                             reserved = reservation env rq, released = False \<rparr>],
                     tasks := remove_at i (tasks s0) \<rparr>) \<and>
         (i < length (tasks s0) \<and> tasks s0 ! i = RunAwaiting rq p fn ao AtGate \<and>
          headroom env s0 rq \<longrightarrow>
            tokens (step env s0 (GateSettles i (GrantFaulty x)))
              = tokens s0 @ [\<lparr> base = faulty_token (next_slot (bulkhead s0)) x,
                               reserved = reservation env rq, released = False \<rparr>] \<and>
            inFlightTokens (step env s0 (GateSettles i (GrantFaulty x)))
              = inFlightTokens s0 + reservation env rq \<and>
            tasks (step env s0 (GateSettles i (GrantFaulty x)))
              = (tasks s0)[i := RunWorking p (length (tokens s0))]) \<and>
         (i < length (tasks s0) \<and> headroom env s0 rq \<and>
          (tasks s0 ! i = AcquireAtGate rq \<or> tasks s0 ! i = RunAwaiting rq p fn ao AtGate) \<and>
          \<not> released (tokens (exec env s0 (GateSettles i (GrantFaulty x) # evs')) ! length (tokens s0))
            \<longrightarrow>
            release (exec env s0 (GateSettles i (GrantFaulty x) # evs')) (length (tokens s0))
              = (Some x, (exec env s0 (GateSettles i (GrantFaulty x) # evs'))
                   \<lparr> tokens := (tokens (exec env s0 (GateSettles i (GrantFaulty x) # evs')))
                        [length (tokens s0)
                           := \<lparr> base = faulty_token (next_slot (bulkhead s0)) x,
                                reserved = reservation env rq, released = True \<rparr>],
                     inFlightTokens
                       := max 0 (inFlightTokens (exec env s0 (GateSettles i (GrantFaulty x) # evs'))
                                 - reservation env rq) \<rparr>)) \<and>
         (u < length (tokens st) \<and> \<not> released (tokens st ! u) \<and>
          base (tokens st ! u) (bulkhead st) = (Some y, g) \<longrightarrow>
            release st u
              = (Some y, st\<lparr> tokens := (tokens st)[u := (tokens st ! u)\<lparr> released := True \<rparr>],
                             bulkhead := g,
                             inFlightTokens
                               := max 0 (inFlightTokens st - reserved (tokens st ! u)) \<rparr>) \<and>
            release (snd (release st u)) u = (None, snd (release st u)) \<and>
            work_settles st u out = (Inl y, snd (release st u)))"
proof -
  note m = admitted_faulty[OF assms]
  have p: "t < length (tokens st0)" "base (tokens st0 ! t) = faulty_token sid x"
    "reserved (tokens st0 ! t) = reservation env rq"
    by (simp_all add: m(2) m(3))
  note q = token_kept_exec[OF p, of env evs]
  have a: "release (exec env st0 evs) t
              = (Some x, (exec env st0 evs)
                   \<lparr> tokens := (tokens (exec env st0 evs))
                        [t := \<lparr> base = faulty_token sid x, reserved = reservation env rq,
                                released = True \<rparr>],
                     inFlightTokens
                       := max 0 (inFlightTokens (exec env st0 evs) - reservation env rq) \<rparr>) \<and>
            release (snd (release (exec env st0 evs) t)) t
              = (None, snd (release (exec env st0 evs) t)) \<and>
            release (exec env (snd (release (exec env st0 evs) t)) evs') t
              = (None, exec env (snd (release (exec env st0 evs) t)) evs')"
    if n: "\<not> released (tokens (exec env st0 evs) ! t)"
  proof -
    have f: "release (exec env st0 evs) t
              = (Some x, (exec env st0 evs)
                   \<lparr> tokens := (tokens (exec env st0 evs))
                        [t := \<lparr> base = faulty_token sid x, reserved = reservation env rq,
                                released = True \<rparr>],
                     inFlightTokens
                       := max 0 (inFlightTokens (exec env st0 evs) - reservation env rq) \<rparr>)"
      by (rule release_faulty_token[OF q(1) token_unreleased[OF q(2) q(3) n]])
    have "is_released (snd (release (exec env st0 evs) t)) t"
      using q(1) by (simp add: f is_released_def)
    then have "is_released (exec env (snd (release (exec env st0 evs) t)) evs') t"
      by (rule is_released_exec)
    then have "release (exec env (snd (release (exec env st0 evs) t)) evs') t
              = (None, exec env (snd (release (exec env st0 evs) t)) evs')"
      by (simp add: is_released_def release_released)
    with f release_again[of "exec env st0 evs" t] show ?thesis by blast
  qed
  have j: "step env s0 (GateSettles i (GrantFaulty x))
              = s0\<lparr> bulkhead := (bulkhead s0)\<lparr> slots := slots (bulkhead s0) @ [next_slot (bulkhead s0)],
                                               next_slot := Suc (next_slot (bulkhead s0)) \<rparr>,
                     inFlightTokens := inFlightTokens s0 + reservation env rq,
                     tokens := tokens s0 @ [\<lparr> base = faulty_token (next_slot (bulkhead s0)) x,
                                             reserved = reservation env rq, released = False \<rparr>],
                     tasks := remove_at i (tasks s0) \<rparr>"
    if "i < length (tasks s0)" and "tasks s0 ! i = AcquireAtGate rq" and "headroom env s0 rq"
    by (rule acquire_job_faulty[OF that])
  have j': "tokens (step env s0 (GateSettles i (GrantFaulty x)))
              = tokens s0 @ [\<lparr> base = faulty_token (next_slot (bulkhead s0)) x,
                               reserved = reservation env rq, released = False \<rparr>] \<and>
            inFlightTokens (step env s0 (GateSettles i (GrantFaulty x)))
              = inFlightTokens s0 + reservation env rq \<and>
            tasks (step env s0 (GateSettles i (GrantFaulty x)))
              = (tasks s0)[i := RunWorking p (length (tokens s0))]"
    if "i < length (tasks s0)" and "tasks s0 ! i = RunAwaiting rq p fn ao AtGate"
      and "headroom env s0 rq"
    unfolding run_job_faulty[OF that] by simp
  have b: "release st u
              = (Some y, st\<lparr> tokens := (tokens st)[u := (tokens st ! u)\<lparr> released := True \<rparr>],
                             bulkhead := g,
                             inFlightTokens
                               := max 0 (inFlightTokens st - reserved (tokens st ! u)) \<rparr>) \<and>
            release (snd (release st u)) u = (None, snd (release st u)) \<and>
            work_settles st u out = (Inl y, snd (release st u))"
    if "u < length (tokens st)" and "\<not> released (tokens st ! u)"
      and "base (tokens st ! u) (bulkhead st) = (Some y, g)"
    using release_first[OF that] release_again[of st u]
    by (simp add: work_settles_def)
  have k: "release (exec env s0 (GateSettles i (GrantFaulty x) # evs')) (length (tokens s0))
              = (Some x, (exec env s0 (GateSettles i (GrantFaulty x) # evs'))
                   \<lparr> tokens := (tokens (exec env s0 (GateSettles i (GrantFaulty x) # evs')))
                        [length (tokens s0)
                           := \<lparr> base = faulty_token (next_slot (bulkhead s0)) x,
                                reserved = reservation env rq, released = True \<rparr>],
                     inFlightTokens
                       := max 0 (inFlightTokens (exec env s0 (GateSettles i (GrantFaulty x) # evs'))
                                 - reservation env rq) \<rparr>)"
    if "i < length (tasks s0)" and "headroom env s0 rq"
      and "tasks s0 ! i = AcquireAtGate rq \<or> tasks s0 ! i = RunAwaiting rq p fn ao AtGate"
      and n: "\<not> released (tokens (exec env s0 (GateSettles i (GrantFaulty x) # evs'))
                  ! length (tokens s0))"
  proof -
    have "tokens (step env s0 (GateSettles i (GrantFaulty x)))
              = tokens s0 @ [\<lparr> base = faulty_token (next_slot (bulkhead s0)) x,
                               reserved = reservation env rq, released = False \<rparr>]"
      using that(3)
    proof
      assume "tasks s0 ! i = AcquireAtGate rq"
      then show ?thesis by (simp only: acquire_job_faulty[OF that(1) _ that(2)]) simp
    next
      assume "tasks s0 ! i = RunAwaiting rq p fn ao AtGate"
      then show ?thesis by (simp only: run_job_faulty[OF that(1) _ that(2)]) simp
    qed
    then have h: "length (tokens s0) < length (tokens (step env s0 (GateSettles i (GrantFaulty x))))"
      "tokens (step env s0 (GateSettles i (GrantFaulty x))) ! length (tokens s0)
         = \<lparr> base = faulty_token (next_slot (bulkhead s0)) x,
              reserved = reservation env rq, released = False \<rparr>"
      by simp_all
    show ?thesis
      using later_release_faulty[OF h, of env evs'] n unfolding exec_Cons by blast
  qed
  from m(2) m(3) a j j' k b show ?thesis
    by blast
qed

theorem wrapped_release_base_throws_witness:
  "tasks ex_waiting ! 0 = AcquireAtGate (ex_request None) \<and>
   headroom (ex_env 200 False) ex_waiting (ex_request None) \<and>
   reservation (ex_env 200 False) (ex_request None) = 120 \<and>
   step (ex_env 200 False) ex_waiting (GateSettles 0 (GrantFaulty (OtherError ''release failed'')))
     = ex_faulty \<and>
   tokens ex_faulty
     = [\<lparr> base = faulty_token 0 (OtherError ''release failed''), reserved = 120, released = False \<rparr>] \<and>
   inFlightTokens ex_faulty = 120 \<and>
   base (tokens ex_faulty ! 0) (bulkhead ex_faulty)
     = (Some (OtherError ''release failed''), bulkhead ex_faulty) \<and>
   fst (release ex_faulty 0) = Some (OtherError ''release failed'') \<and>
   released (tokens (snd (release ex_faulty 0)) ! 0) \<and>
   inFlightTokens (snd (release ex_faulty 0)) = 0 \<and>
   release (snd (release ex_faulty 0)) 0 = (None, snd (release ex_faulty 0)) \<and>
   inFlightTokens (snd (release (snd (release ex_faulty 0)) 0)) = 0 \<and>
   acquire_resume (ex_env 200 False) ex_waiting (ex_request None)
       (GrantedFaulty 0 (OtherError ''release failed''))
     = (Ok 0, ex_waiting\<lparr> inFlightTokens := 120,
                tokens := [\<lparr> base = faulty_token 0 (OtherError ''release failed''),
                             reserved = 120, released = False \<rparr>] \<rparr>) \<and>
   fst (release (exec (ex_env 200 False)
         (ex_waiting\<lparr> inFlightTokens := 120,
            tokens := [\<lparr> base = faulty_token 0 (OtherError ''release failed''),
                         reserved = 120, released = False \<rparr>] \<rparr>)
         [CallAcquire (ex_request None) no_options]) 0) = Some (OtherError ''release failed'') \<and>
   inFlightTokens (snd (release (exec (ex_env 200 False)
         (ex_waiting\<lparr> inFlightTokens := 120,
            tokens := [\<lparr> base = faulty_token 0 (OtherError ''release failed''),
                         reserved = 120, released = False \<rparr>] \<rparr>)
         [CallAcquire (ex_request None) no_options]) 0)) = 0 \<and>
   work_settles ex_faulty 0 (Inr 5)
     = (Inl (OtherError ''release failed''), snd (release ex_faulty 0)) \<and>
   exec (ex_env 200 False) ex_waiting
       [GateSettles 0 (GrantFaulty (OtherError ''release failed'')),
        CallAcquire (ex_request None) no_options] = ex_faulty \<and>
   fst (release (exec (ex_env 200 False) ex_waiting
         [GateSettles 0 (GrantFaulty (OtherError ''release failed'')),
          CallAcquire (ex_request None) no_options]) 0) = Some (OtherError ''release failed'') \<and>
   inFlightTokens (snd (release (exec (ex_env 200 False) ex_waiting
         [GateSettles 0 (GrantFaulty (OtherError ''release failed'')),
          CallAcquire (ex_request None) no_options]) 0)) = 0 \<and>
   tasks ex_queued ! 0 = RunAwaiting (ex_request None) 0 7 no_options AtGate \<and>
   headroom (ex_env 200 True) ex_queued (ex_request None) \<and>
   tokens (step (ex_env 200 True) ex_queued
       (GateSettles 0 (GrantFaulty (OtherError ''release failed''))))
     = [\<lparr> base = faulty_token 0 (OtherError ''release failed''), reserved = 120,
          released = False \<rparr>] \<and>
   tasks (step (ex_env 200 True) ex_queued
       (GateSettles 0 (GrantFaulty (OtherError ''release failed'')))) = [RunWorking 0 0] \<and>
   promises (exec (ex_env 200 True) ex_queued
       [GateSettles 0 (GrantFaulty (OtherError ''release failed'')), FnSettles 0 (Inr 5), Resume 0])
     = [Rejected (OtherError ''release failed'')] \<and>
   inFlightTokens (exec (ex_env 200 True) ex_queued
       [GateSettles 0 (GrantFaulty (OtherError ''release failed'')), FnSettles 0 (Inr 5), Resume 0])
     = 0"
proof -
  let ?E = "ex_env 200 False"
  let ?x = "OtherError ''release failed'' :: string thrown"
  let ?S = "ex_waiting\<lparr> inFlightTokens := 120,
              tokens := [\<lparr> base = faulty_token 0 ?x, reserved = 120, released = False \<rparr>] \<rparr>"
  let ?X = "exec ?E ?S [CallAcquire (ex_request None) no_options]"
  have tw: "tasks ex_waiting ! 0 = AcquireAtGate (ex_request None)"
    and lw: "0 < length (tasks ex_waiting)"
    and hw: "headroom ?E ex_waiting (ex_request None)"
    and rw: "reservation ?E (ex_request None) = 120"
    by (simp_all add: ex_waiting_fields ex_reservation)
  have adm: "acquire_resume ?E ex_waiting (ex_request None) (GrantedFaulty 0 ?x) = (Ok 0, ?S)"
    by (simp add: acquire_resume_def reserve_headroom[OF hw] rw wrapToken_def ex_waiting_fields)
  have x: "?X = ?S"
    by (simp add: exec_def acquire_enter_def ex_env_fields fixed_estimator_def)
  have nr: "\<not> released (tokens ?X ! 0)"
    by (simp add: x)
  have lf: "0 < length (tokens ex_faulty)" and nf: "\<not> released (tokens ex_faulty ! 0)"
    and bf: "base (tokens ex_faulty ! 0) (bulkhead ex_faulty) = (Some ?x, bulkhead ex_faulty)"
    and tf: "tokens ex_faulty = [\<lparr> base = faulty_token 0 ?x, reserved = 120, released = False \<rparr>]"
    and jf: "inFlightTokens ex_faulty = 120" and vf: "reserved (tokens ex_faulty ! 0) = 120"
    by (simp_all add: ex_faulty_fields faulty_token_def)
  note w = wrapped_release_base_throws [OF adm, where evs = "[CallAcquire (ex_request None) no_options]"
      and evs' = "[CallAcquire (ex_request None) no_options]" and i = 0 and ?s0.0 = ex_waiting and u = 0 and st = ex_faulty
      and y = ?x and g = "bulkhead ex_faulty" and out = "Inr 5" and p = 0 and fn = 7
      and ao = no_options]
  have g': "step ?E ex_waiting (GateSettles 0 (GrantFaulty ?x)) = ex_faulty"
    by (simp add: ex_faulty_def ex_waiting_def exec_def)
  have r: "release ?X 0
              = (Some ?x, ?X
                   \<lparr> tokens := (tokens ?X)
                        [0 := \<lparr> base = faulty_token 0 ?x,
                                reserved = reservation ?E (ex_request None), released = True \<rparr>],
                     inFlightTokens
                       := max 0 (inFlightTokens ?X - reservation ?E (ex_request None)) \<rparr>)"
    using w nr by blast
  have r1: "fst (release ?X 0) = Some ?x" and r2: "inFlightTokens (snd (release ?X 0)) = 0"
    unfolding r by (simp_all add: rw x)
  have f: "release ex_faulty 0
              = (Some ?x, ex_faulty\<lparr> tokens := (tokens ex_faulty)[0 := (tokens ex_faulty ! 0)\<lparr> released := True \<rparr>],
                             bulkhead := bulkhead ex_faulty,
                             inFlightTokens
                               := max 0 (inFlightTokens ex_faulty - reserved (tokens ex_faulty ! 0)) \<rparr>)"
    and f2: "release (snd (release ex_faulty 0)) 0 = (None, snd (release ex_faulty 0))"
    using w lf nf bf by blast+
  have f1: "fst (release ex_faulty 0) = Some ?x"
    and f3: "released (tokens (snd (release ex_faulty 0)) ! 0)"
    and f4: "inFlightTokens (snd (release ex_faulty 0)) = 0"
    unfolding f by (simp_all add: jf vf tf)
  have f5: "inFlightTokens (snd (release (snd (release ex_faulty 0)) 0)) = 0"
    by (simp add: f2 f4)
  have f6: "work_settles ex_faulty 0 (Inr 5) = (Inl ?x, snd (release ex_faulty 0))"
    using w lf nf bf by blast
  let ?L = "exec ?E ex_waiting [GateSettles 0 (GrantFaulty ?x), CallAcquire (ex_request None) no_options]"
  have xf: "exec ?E ex_faulty [CallAcquire (ex_request None) no_options] = ex_faulty"
    by (simp add: exec_def acquire_enter_def ex_env_fields fixed_estimator_def ex_faulty_fields)
  have xl: "?L = ex_faulty"
    by (simp only: exec_Cons[of _ _ "GateSettles 0 (GrantFaulty ?x)"] g' xf)
  have tl: "length (tokens ex_waiting) = 0"
    by (simp add: ex_waiting_fields)
  have nl: "\<not> released (tokens ?L ! length (tokens ex_waiting))"
    unfolding xl tl by (rule nf)
  have l: "release ?L (length (tokens ex_waiting))
              = (Some ?x, ?L
                   \<lparr> tokens := (tokens ?L)
                        [length (tokens ex_waiting)
                           := \<lparr> base = faulty_token (next_slot (bulkhead ex_waiting)) ?x,
                                reserved = reservation ?E (ex_request None), released = True \<rparr>],
                     inFlightTokens
                       := max 0 (inFlightTokens ?L - reservation ?E (ex_request None)) \<rparr>)"
    using w lw hw tw nl by blast
  have l1: "fst (release ?L 0) = Some ?x" and l2: "inFlightTokens (snd (release ?L 0)) = 0"
    using l unfolding tl by (simp_all add: rw xl jf)
  have tq: "tasks ex_queued ! 0 = RunAwaiting (ex_request None) 0 7 no_options AtGate"
    and lq: "0 < length (tasks ex_queued)"
    and hq: "headroom (ex_env 200 True) ex_queued (ex_request None)"
    and rq: "reservation (ex_env 200 True) (ex_request None) = 120"
    and fq: "tokens ex_queued = []" "inFlightTokens ex_queued = 0"
      "next_slot (bulkhead ex_queued) = 0"
      "tasks ex_queued = [RunAwaiting (ex_request None) 0 7 no_options AtGate]"
    by (simp_all add: ex_reservation) (simp_all add: ex_queued_def ex_defs op_defs)
  have adm': "acquire_resume (ex_env 200 True) ex_queued (ex_request None) (GrantedFaulty 0 ?x)
                = (Ok 0, ex_queued\<lparr> inFlightTokens := 120,
                     tokens := [\<lparr> base = faulty_token 0 ?x, reserved = 120, released = False \<rparr>] \<rparr>)"
    by (simp add: acquire_resume_def reserve_headroom[OF hq] rq wrapToken_def fq)
  note w' = wrapped_release_base_throws [OF adm', where evs = "[]" and evs' = "[]" and i = 0
      and ?s0.0 = ex_queued and u = 0 and st = ex_faulty and y = ?x and g = "bulkhead ex_faulty"
      and out = "Inr 5" and p = 0 and fn = 7 and ao = no_options]
  have q1: "tokens (step (ex_env 200 True) ex_queued (GateSettles 0 (GrantFaulty ?x)))
              = tokens ex_queued @ [\<lparr> base = faulty_token (next_slot (bulkhead ex_queued)) ?x,
                               reserved = reservation (ex_env 200 True) (ex_request None),
                               released = False \<rparr>]"
    and q3: "tasks (step (ex_env 200 True) ex_queued (GateSettles 0 (GrantFaulty ?x)))
              = (tasks ex_queued)[0 := RunWorking 0 (length (tokens ex_queued))]"
    using w' lq tq hq by blast+
  have q1': "tokens (step (ex_env 200 True) ex_queued (GateSettles 0 (GrantFaulty ?x)))
     = [\<lparr> base = faulty_token 0 ?x, reserved = 120, released = False \<rparr>]"
    and q3': "tasks (step (ex_env 200 True) ex_queued (GateSettles 0 (GrantFaulty ?x)))
     = [RunWorking 0 0]"
    unfolding q1 q3 by (simp_all add: fq rq)
  have q4: "promises (exec (ex_env 200 True) ex_queued
       [GateSettles 0 (GrantFaulty ?x), FnSettles 0 (Inr 5), Resume 0]) = [Rejected ?x]"
    and q5: "inFlightTokens (exec (ex_env 200 True) ex_queued
       [GateSettles 0 (GrantFaulty ?x), FnSettles 0 (Inr 5), Resume 0]) = 0"
    by (simp_all add: ex_queued_def ex_defs op_defs faulty_token_def)
  from tw hw rw g' tf jf bf f1 f3 f4 f2 f5 adm r1 r2 f6 xl l1 l2 tq hq q1' q3' q4 q5
  show ?thesis by blast
qed

section \<open>Admission\<close>

lemma ex_contended_fields:
  "inFlightTokens (ex_contended d) = 120"
  "bulkhead (ex_contended d)
     = \<lparr> gate_maxConcurrent = 2, gate_maxQueue = 20,
         acquire_calls = [\<lparr> signal = None, timeoutMs = Some 30000 \<rparr>,
                          \<lparr> signal = None, timeoutMs = Some 30000 \<rparr>,
                          \<lparr> signal = None, timeoutMs = Some 30000 \<rparr>],
         slots = [0], next_slot = 1 \<rparr>"
  "tasks (ex_contended d)
     = [RunAwaiting (ex_request None) 0 7 no_options AtGate, AcquireAtGate (ex_request None)]"
  "promises (ex_contended d) = [Pending]"
  "fn_calls (ex_contended d) = []"
  "tokens (ex_contended d) = [\<lparr> base = slot_token 0, reserved = 120, released = False \<rparr>]"
  by (simp_all add: ex_contended_def ex_defs op_defs)

text \<open>
  C3. With a token budget, when the gate grants slot \<open>sid\<close> and the reservation then
  fails (\<open>inFlightTokens + cost > budget\<close> at that moment), \<^verbatim>\<open>_acquire\<close> releases the
  slot token and returns \<^verbatim>\<open>budget_limit\<close>; nothing else of the state changes: the
  counter is as before and no wrapped token is made. For a suspended \<^verbatim>\<open>acquire\<close>
  (call \<open>i\<close>) and a suspended \<^verbatim>\<open>run\<close> (call \<open>j\<close>) the whole job, from the gate's
  grant, leaves the slots as they were before the grant; the \<^verbatim>\<open>run\<close> call's promise
  is rejected with the \<^verbatim>\<open>LLMBulkheadRejectedError\<close> of \<^verbatim>\<open>budget_limit\<close> and its work
  function is not invoked.
\<close>

theorem post_grant_budget_rejection:
  assumes "env_budget env = Some b"
    and "inFlightTokens st + (input (estimator env rq) + maxOutput (estimator env rq)) > b"
    and "next_slot (bulkhead st) \<notin> set (slots (bulkhead st))"
  shows "acquire_resume env st rq (Granted sid)
           = (NotOk budget_limit, st\<lparr> bulkhead := slot_release sid (bulkhead st) \<rparr>) \<and>
         sid \<notin> set (slots (bulkhead (snd (acquire_resume env st rq (Granted sid))))) \<and>
         (i < length (tasks st) \<and> tasks st ! i = AcquireAtGate rq \<longrightarrow>
            step env st (GateSettles i Grant)
              = st\<lparr> bulkhead := (bulkhead st)\<lparr> next_slot := Suc (next_slot (bulkhead st)) \<rparr>,
                     tasks := remove_at i (tasks st) \<rparr>) \<and>
         (j < length (tasks st) \<and> tasks st ! j = RunAwaiting rq p fn ao AtGate \<and>
          p < length (promises st) \<and> promises st ! p = Pending \<longrightarrow>
            step env st (GateSettles j Grant)
              = st\<lparr> bulkhead := (bulkhead st)\<lparr> next_slot := Suc (next_slot (bulkhead st)) \<rparr>,
                     promises := (promises st)
                       [p := Rejected (Rejection (LLMBulkheadRejectedError budget_limit))],
                     tasks := remove_at j (tasks st) \<rparr>)"
proof -
  have r: "acquire_resume env s rq (Granted k)
             = (NotOk budget_limit, s\<lparr> bulkhead := slot_release k (bulkhead s) \<rparr>)"
    if "inFlightTokens s = inFlightTokens st" for s :: "('a, 'b) State" and k
    using assms(1,2) that by (simp add: acquire_resume_def tryReserveTokens_def Let_def)
  have g: "slot_release (next_slot (bulkhead st))
             ((bulkhead st)\<lparr> slots := slots (bulkhead st) @ [next_slot (bulkhead st)],
                              next_slot := Suc (next_slot (bulkhead st)) \<rparr>)
           = (bulkhead st)\<lparr> next_slot := Suc (next_slot (bulkhead st)) \<rparr>"
    using assms(3) by (simp add: slot_release_def)
  show ?thesis
    using g
    by (auto simp: r gate_settle_def Let_def slot_release_def run_continue_def run_resume_def
        settle_def)
qed

theorem post_grant_budget_rejection_witness:
  "env_budget (ex_env 200 False) = Some 200 \<and>
   inFlightTokens (ex_contended False)
     + (input (estimator (ex_env 200 False) (ex_request None))
        + maxOutput (estimator (ex_env 200 False) (ex_request None))) > 200 \<and>
   next_slot (bulkhead (ex_contended False)) \<notin> set (slots (bulkhead (ex_contended False))) \<and>
   tasks (ex_contended False) ! 1 = AcquireAtGate (ex_request None) \<and>
   tasks (ex_contended False) ! 0 = RunAwaiting (ex_request None) 0 7 no_options AtGate \<and>
   promises (ex_contended False) ! 0 = Pending \<and>
   acquire_resume (ex_env 200 False) (ex_contended False) (ex_request None) (Granted 1)
     = (NotOk budget_limit,
        (ex_contended False)\<lparr> bulkhead := slot_release 1 (bulkhead (ex_contended False)) \<rparr>) \<and>
   step (ex_env 200 False) (ex_contended False) (GateSettles 1 Grant)
     = (ex_contended False)
         \<lparr> bulkhead := (bulkhead (ex_contended False))
                         \<lparr> next_slot := Suc (next_slot (bulkhead (ex_contended False))) \<rparr>,
           tasks := remove_at 1 (tasks (ex_contended False)) \<rparr> \<and>
   step (ex_env 200 False) (ex_contended False) (GateSettles 0 Grant)
     = (ex_contended False)
         \<lparr> bulkhead := (bulkhead (ex_contended False))
                         \<lparr> next_slot := Suc (next_slot (bulkhead (ex_contended False))) \<rparr>,
           promises := (promises (ex_contended False))
             [0 := Rejected (Rejection (LLMBulkheadRejectedError budget_limit))],
           tasks := remove_at 0 (tasks (ex_contended False)) \<rparr>"
proof -
  have b: "env_budget (ex_env 200 False) = Some 200"
    and o: "inFlightTokens (ex_contended False)
     + (input (estimator (ex_env 200 False) (ex_request None))
        + maxOutput (estimator (ex_env 200 False) (ex_request None))) > 200"
    and n: "next_slot (bulkhead (ex_contended False)) \<notin> set (slots (bulkhead (ex_contended False)))"
    and t1: "tasks (ex_contended False) ! 1 = AcquireAtGate (ex_request None)"
    and t0: "tasks (ex_contended False) ! 0 = RunAwaiting (ex_request None) 0 7 no_options AtGate"
    and p: "promises (ex_contended False) ! 0 = Pending"
    and l: "1 < length (tasks (ex_contended False))" "0 < length (tasks (ex_contended False))"
           "0 < length (promises (ex_contended False))"
    by (simp_all add: ex_env_fields ex_contended_fields fixed_estimator_def)
  note w = post_grant_budget_rejection [OF b o n, of 1 1 0 0 7 no_options]
  from w b o n t1 t0 p l show ?thesis by blast
qed

text \<open>
  C2 (as amended). With a token budget, when \<open>inFlightTokens + cost > budget\<close> at the
  call: \<^verbatim>\<open>acquire\<close> returns \<^verbatim>\<open>budget_limit\<close> at once and changes nothing (the gate's
  \<^verbatim>\<open>acquire\<close> is not called, the counter is untouched). A \<^verbatim>\<open>run\<close> call that is not
  a follower of an in-flight entry is left waiting only for its own resumption, with
  the gate and the counter untouched; no answer of the gate concerns it; and when it
  resumes, its promise is rejected with the \<^verbatim>\<open>LLMBulkheadRejectedError\<close> of
  \<^verbatim>\<open>budget_limit\<close>, with the gate, the counter and the work-function invocations as
  they were at the call.
\<close>

theorem precheck_budget_rejection:
  assumes "env_budget env = Some b"
    and "inFlightTokens st + (input (estimator env rq) + maxOutput (estimator env rq)) > b"
  shows "acquire_enter env st rq ao = (Returned (NotOk budget_limit), st) \<and>
         step env st (CallAcquire rq ao) = st \<and>
         (\<not> joins env st rq \<longrightarrow>
            bulkhead (step env st (CallRun rq fn ao)) = bulkhead st \<and>
            inFlightTokens (step env st (CallRun rq fn ao)) = inFlightTokens st \<and>
            tasks (step env st (CallRun rq fn ao))
              = tasks st @ [RunAwaiting rq (length (promises st)) fn ao
                              (Returned (NotOk budget_limit))] \<and>
            step env (step env st (CallRun rq fn ao)) (GateSettles (length (tasks st)) a)
              = step env st (CallRun rq fn ao) \<and>
            promises (step env (step env st (CallRun rq fn ao)) (Resume (length (tasks st))))
                ! length (promises st)
              = Rejected (Rejection (LLMBulkheadRejectedError budget_limit)) \<and>
            bulkhead (step env (step env st (CallRun rq fn ao)) (Resume (length (tasks st))))
              = bulkhead st \<and>
            inFlightTokens (step env (step env st (CallRun rq fn ao)) (Resume (length (tasks st))))
              = inFlightTokens st \<and>
            fn_calls (step env (step env st (CallRun rq fn ao)) (Resume (length (tasks st))))
              = fn_calls st \<and>
            tasks (step env (step env st (CallRun rq fn ao)) (Resume (length (tasks st))))
              = tasks st)"
proof -
  have e: "acquire_enter env s rq ao = (Returned (NotOk budget_limit), s)"
    if "inFlightTokens s = inFlightTokens st" for s :: "('a, 'b) State"
    using assms that by (simp add: acquire_enter_def Let_def)
  show ?thesis
    by (auto simp: e joins_def run_enter_def createDeferred_def Let_def run_continue_def
        run_resume_def settle_def remove_at_def nth_append
        split: option.splits)
qed

theorem precheck_budget_rejection_witness:
  "env_budget (ex_env 200 False) = Some 200 \<and>
   inFlightTokens (ex_admitted False)
     + (input (estimator (ex_env 200 False) (ex_request None))
        + maxOutput (estimator (ex_env 200 False) (ex_request None))) > 200 \<and>
   \<not> joins (ex_env 200 False) (ex_admitted False) (ex_request None) \<and>
   acquire_enter (ex_env 200 False) (ex_admitted False) (ex_request None) no_options
     = (Returned (NotOk budget_limit), ex_admitted False) \<and>
   acquire_calls (bulkhead (step (ex_env 200 False) (ex_admitted False)
       (CallRun (ex_request None) 7 no_options)))
     = acquire_calls (bulkhead (ex_admitted False)) \<and>
   promises (step (ex_env 200 False)
       (step (ex_env 200 False) (ex_admitted False) (CallRun (ex_request None) 7 no_options))
       (Resume (length (tasks (ex_admitted False))))) ! length (promises (ex_admitted False))
     = Rejected (Rejection (LLMBulkheadRejectedError budget_limit)) \<and>
   inFlightTokens (step (ex_env 200 False)
       (step (ex_env 200 False) (ex_admitted False) (CallRun (ex_request None) 7 no_options))
       (Resume (length (tasks (ex_admitted False))))) = 120"
proof -
  have b: "env_budget (ex_env 200 False) = Some 200"
    and o: "inFlightTokens (ex_admitted False)
     + (input (estimator (ex_env 200 False) (ex_request None))
        + maxOutput (estimator (ex_env 200 False) (ex_request None))) > 200"
    and j: "\<not> joins (ex_env 200 False) (ex_admitted False) (ex_request None)"
    and i: "inFlightTokens (ex_admitted False) = 120"
    by (simp_all add: ex_env_fields ex_admitted_fields fixed_estimator_def joins_def)
  note w = precheck_budget_rejection [OF b o, of no_options 7 Grant]
  from w j have
    "acquire_enter (ex_env 200 False) (ex_admitted False) (ex_request None) no_options
       = (Returned (NotOk budget_limit), ex_admitted False)"
    and g: "bulkhead (step (ex_env 200 False) (ex_admitted False)
              (CallRun (ex_request None) 7 no_options)) = bulkhead (ex_admitted False)"
    and "promises (step (ex_env 200 False)
       (step (ex_env 200 False) (ex_admitted False) (CallRun (ex_request None) 7 no_options))
       (Resume (length (tasks (ex_admitted False))))) ! length (promises (ex_admitted False))
     = Rejected (Rejection (LLMBulkheadRejectedError budget_limit))"
    and "inFlightTokens (step (ex_env 200 False)
       (step (ex_env 200 False) (ex_admitted False) (CallRun (ex_request None) 7 no_options))
       (Resume (length (tasks (ex_admitted False))))) = inFlightTokens (ex_admitted False)"
    by blast+
  with b o j i show ?thesis by simp
qed

lemma ex_leading_fields:
  "inFlightTokens ex_leading = 120"
  "dedupMap ex_leading = [(''[{\"role\":\"user\",\"content\":\"hello\"}]'', 0)]"
  "tasks ex_leading = [RunWorking 0 0]"
  "promises ex_leading = [Pending]"
  "tokens ex_leading = [\<lparr> base = slot_token 0, reserved = 120, released = False \<rparr>]"
  "slots (bulkhead ex_leading) = [0]"
  "cleanups ex_leading = [(''[{\"role\":\"user\",\"content\":\"hello\"}]'', 0)]"
  "dedupHits ex_leading = 0"
  "fn_calls ex_leading = [(7, None)]"
  by (simp_all add: ex_leading_def ex_defs op_defs)

text \<open>With deduplication, a \<^verbatim>\<open>run\<close> call whose key has an in-flight entry is not
  rejected although its cost exceeds the headroom: it returns the leader's promise,
  which here is fulfilled with the leader's value.\<close>

theorem precheck_budget_rejection_counterexample:
  "env_budget (ex_env 200 True) = Some 200 \<and>
   inFlightTokens ex_leading
     + (input (estimator (ex_env 200 True) (ex_request None))
        + maxOutput (estimator (ex_env 200 True) (ex_request None))) > 200 \<and>
   fst (run_enter (ex_env 200 True) ex_leading (ex_request None) no_options) = Joined 0 \<and>
   promises (exec (ex_env 200 True) ex_leading
     [CallRun (ex_request None) 8 no_options, FnSettles 0 (Inr 42), Resume 0]) ! 0
     = Fulfilled 42"
  by (simp add: ex_leading_def ex_defs op_defs)

section \<open>What entering a call changes\<close>

lemma acquire_enter_cases:
  "acquire_enter env st rq ao = (Returned (NotOk budget_limit), st) \<or>
   acquire_enter env st rq ao
     = (AtGate, st\<lparr> bulkhead := gate_acquire (bulkhead st) (mergedOptions env ao) \<rparr>)"
  by (simp add: acquire_enter_def Let_def)

lemma update_absent:
  "k \<notin> fst ` set al \<Longrightarrow> AList.update k v al = al @ [(k, v)]"
  by (induction al) auto

lemma run_enter_joins:
  assumes "env_deduplication env" and "dedupKey env rq \<noteq> []"
    and "map_of (dedupMap st) (dedupKey env rq) = Some p"
  shows "run_enter env st rq ao = (Joined p, st\<lparr> dedupHits := Suc (dedupHits st) \<rparr>)"
  using assms by (simp add: run_enter_def)

lemma run_enter_leads:
  assumes "env_deduplication env" and "dedupKey env rq \<noteq> []"
    and "map_of (dedupMap st) (dedupKey env rq) = None"
  shows "run_enter env st rq ao
           = (Entered (length (promises st))
                (fst (acquire_enter env
                   (st\<lparr> promises := promises st @ [Pending],
                        dedupMap := dedupMap st @ [(dedupKey env rq, length (promises st))],
                        cleanups := cleanups st @ [(dedupKey env rq, length (promises st))] \<rparr>)
                   rq ao)),
              snd (acquire_enter env
                   (st\<lparr> promises := promises st @ [Pending],
                        dedupMap := dedupMap st @ [(dedupKey env rq, length (promises st))],
                        cleanups := cleanups st @ [(dedupKey env rq, length (promises st))] \<rparr>)
                   rq ao))"
proof -
  have "dedupKey env rq \<notin> fst ` set (dedupMap st)"
    using assms(3) by (simp add: map_of_eq_None_iff)
  then show ?thesis
    using assms
    by (simp add: run_enter_def createDeferred_def Let_def case_prod_beta update_absent)
qed

lemma run_enter_plain:
  assumes "\<not> (env_deduplication env \<and> dedupKey env rq \<noteq> [])"
  shows "run_enter env st rq ao
           = (Entered (length (promises st))
                (fst (acquire_enter env (st\<lparr> promises := promises st @ [Pending] \<rparr>) rq ao)),
              snd (acquire_enter env (st\<lparr> promises := promises st @ [Pending] \<rparr>) rq ao))"
  using assms
  by (auto simp: run_enter_def createDeferred_def Let_def case_prod_beta)

lemma run_enter_calls:
  "fst (run_enter env st rq ao) = Entered p AtGate \<Longrightarrow>
   acquire_calls (bulkhead (snd (run_enter env st rq ao)))
     = acquire_calls (bulkhead st) @ [mergedOptions env ao]"
proof (cases "env_deduplication env \<and> dedupKey env rq \<noteq> []")
  case False
  assume "fst (run_enter env st rq ao) = Entered p AtGate"
  then show ?thesis
    using acquire_enter_cases[of env "st\<lparr> promises := promises st @ [Pending] \<rparr>" rq ao]
    by (auto simp: run_enter_plain[OF False] gate_acquire_def)
next
  case True
  assume e: "fst (run_enter env st rq ao) = Entered p AtGate"
  show ?thesis
  proof (cases "map_of (dedupMap st) (dedupKey env rq)")
    case None
    show ?thesis
      using e acquire_enter_cases[of env
          "st\<lparr> promises := promises st @ [Pending],
               dedupMap := dedupMap st @ [(dedupKey env rq, length (promises st))],
               cleanups := cleanups st @ [(dedupKey env rq, length (promises st))] \<rparr>" rq ao]
      using True None by (auto simp: run_enter_leads gate_acquire_def)
  next
    case (Some q)
    then show ?thesis using e True by (simp add: run_enter_joins)
  qed
qed


section \<open>Options\<close>

text \<open>
  C9. For a bulkhead created from \<open>opts\<close>: the timeout in the options passed to the
  gate is the per-call \<^verbatim>\<open>timeoutMs\<close> when given, else \<^verbatim>\<open>opts.timeoutMs\<close> when
  given, else the resolved preset's; the signal is the caller's; the gate is created
  with \<^verbatim>\<open>opts.maxQueue\<close> when given, else the preset's value, else 0; the named
  presets are \<open>interactive = {maxQueue: 0}\<close> and \<open>batch = {maxQueue: 20, timeoutMs:
  30000}\<close>; and whenever \<^verbatim>\<open>acquire\<close> or \<^verbatim>\<open>run\<close> reaches the gate, exactly these
  merged options are what the gate's \<^verbatim>\<open>acquire\<close> is called with.
\<close>

theorem effective_timeout_and_queue:
  assumes "createLLMBulkhead dflt js opts = Inr (env, st0)"
  shows "timeoutMs (mergedOptions env ao)
           = (case timeoutMs ao of
                Some t \<Rightarrow> Some t
              | None \<Rightarrow> (case opt_timeoutMs opts of
                           Some t \<Rightarrow> Some t
                         | None \<Rightarrow> preset_timeoutMs (resolvePreset (profile opts)))) \<and>
         signal (mergedOptions env ao) = signal ao \<and>
         gate_maxQueue (bulkhead st0)
           = (case opt_maxQueue opts of
                Some q \<Rightarrow> q
              | None \<Rightarrow> (case preset_maxQueue (resolvePreset (profile opts)) of
                           Some q \<Rightarrow> q | None \<Rightarrow> 0)) \<and>
         gate_maxConcurrent (bulkhead st0) = maxConcurrent opts \<and>
         resolvePreset (Some interactive)
           = \<lparr> preset_maxQueue = Some 0, preset_timeoutMs = None \<rparr> \<and>
         resolvePreset (Some batch)
           = \<lparr> preset_maxQueue = Some 20, preset_timeoutMs = Some 30000 \<rparr> \<and>
         resolvePreset (Some (custom c)) = c \<and>
         resolvePreset None = \<lparr> preset_maxQueue = None, preset_timeoutMs = None \<rparr> \<and>
         (fst (acquire_enter env st rq ao) = AtGate \<longrightarrow>
            acquire_calls (bulkhead (snd (acquire_enter env st rq ao)))
              = acquire_calls (bulkhead st) @ [mergedOptions env ao]) \<and>
         (fst (run_enter env st rq ao) = Entered p AtGate \<longrightarrow>
            acquire_calls (bulkhead (snd (run_enter env st rq ao)))
              = acquire_calls (bulkhead st) @ [mergedOptions env ao])"
proof -
  have t: "env_timeoutMs env = resolved_timeoutMs opts"
    and q: "bulkhead st0 = createBulkhead (maxConcurrent opts) (resolved_maxQueue opts)"
    using assms by (auto simp: createLLMBulkhead_def split: if_splits)
  have a: "fst (acquire_enter env st rq ao) = AtGate \<Longrightarrow>
           acquire_calls (bulkhead (snd (acquire_enter env st rq ao)))
             = acquire_calls (bulkhead st) @ [mergedOptions env ao]"
    by (auto simp: acquire_enter_def gate_acquire_def Let_def split: if_splits)
  have r: "fst (run_enter env st rq ao) = Entered p AtGate \<Longrightarrow>
           acquire_calls (bulkhead (snd (run_enter env st rq ao)))
             = acquire_calls (bulkhead st) @ [mergedOptions env ao]"
    by (rule run_enter_calls)
  show ?thesis
    using a r
    by (simp add: mergedOptions_def t q resolved_timeoutMs_def resolved_maxQueue_def nullish_def
        createBulkhead_def resolvePreset_def split: option.splits)
qed

theorem effective_timeout_and_queue_witness:
  "ex_explicit = Inr (fst (projr ex_explicit), snd (projr ex_explicit)) \<and>
   createLLMBulkhead (\<lambda>m c. naiveTokenEstimator) ex_stringify (ex_opts 200 False)
     = Inr (ex_env 200 False, ex_init 200 False) \<and>
   gate_maxQueue (bulkhead (snd (projr ex_explicit))) = 0 \<and>
   gate_maxQueue (bulkhead (ex_init 200 False)) = 20 \<and>
   timeoutMs (mergedOptions (fst (projr ex_explicit)) no_options) = Some 0 \<and>
   timeoutMs (mergedOptions (ex_env 200 False) no_options) = Some 30000 \<and>
   timeoutMs (mergedOptions (ex_env 200 False) \<lparr> signal = Some 3, timeoutMs = Some 0 \<rparr>) = Some 0 \<and>
   fst (acquire_enter (ex_env 200 False) (ex_init 200 False) (ex_request None) no_options) = AtGate \<and>
   fst (run_enter (ex_env 200 False) (ex_init 200 False) (ex_request None) no_options)
     = Entered 0 AtGate \<and>
   acquire_calls (bulkhead (snd (acquire_enter (ex_env 200 False) (ex_init 200 False)
       (ex_request None) no_options)))
     = acquire_calls (bulkhead (ex_init 200 False)) @ [mergedOptions (ex_env 200 False) no_options] \<and>
   acquire_calls (bulkhead (snd (run_enter (ex_env 200 False) (ex_init 200 False)
       (ex_request None) no_options)))
     = acquire_calls (bulkhead (ex_init 200 False)) @ [mergedOptions (ex_env 200 False) no_options]"
proof -
  have c: "createLLMBulkhead (\<lambda>m c. naiveTokenEstimator) ex_stringify ex_explicit_opts
             = Inr (fst (projr ex_explicit), snd (projr ex_explicit))"
    by (simp add: ex_explicit_def ex_explicit_opts_def ex_defs)
  have d: "createLLMBulkhead (\<lambda>m c. naiveTokenEstimator) ex_stringify (ex_opts 200 False)
             = Inr (ex_env 200 False, ex_init 200 False)"
    by (simp add: ex_defs)
  have a: "fst (acquire_enter (ex_env 200 False) (ex_init 200 False) (ex_request None) no_options) = AtGate"
    and r: "fst (run_enter (ex_env 200 False) (ex_init 200 False) (ex_request None) no_options)
              = Entered 0 AtGate"
    by (simp_all add: ex_defs op_defs)
  note w1 = effective_timeout_and_queue [OF c, where ao = no_options and st = "ex_init 200 False"
      and rq = "ex_request None" and p = 0 and c = "PROFILES batch"]
  note w2 = effective_timeout_and_queue [OF d, where ao = no_options and st = "ex_init 200 False"
      and rq = "ex_request None" and p = 0 and c = "PROFILES batch"]
  note w3 = effective_timeout_and_queue [OF d, where ao = "\<lparr> signal = Some 3, timeoutMs = Some 0 \<rparr>"
      and st = "ex_init 200 False" and rq = "ex_request None" and p = 0 and c = "PROFILES batch"]
  have "gate_maxQueue (bulkhead (snd (projr ex_explicit))) = 0"
    and "timeoutMs (mergedOptions (fst (projr ex_explicit)) no_options) = Some 0"
    using w1 by (simp_all add: ex_explicit_opts_def ex_opts_def no_options_def)
  moreover have "gate_maxQueue (bulkhead (ex_init 200 False)) = 20"
    and "timeoutMs (mergedOptions (ex_env 200 False) no_options) = Some 30000"
    using w2 by (simp_all add: ex_opts_def no_options_def)
  moreover have "timeoutMs (mergedOptions (ex_env 200 False) \<lparr> signal = Some 3, timeoutMs = Some 0 \<rparr>) = Some 0"
    using w3 by simp
  moreover have "acquire_calls (bulkhead (snd (acquire_enter (ex_env 200 False) (ex_init 200 False)
       (ex_request None) no_options)))
     = acquire_calls (bulkhead (ex_init 200 False)) @ [mergedOptions (ex_env 200 False) no_options]"
    and "acquire_calls (bulkhead (snd (run_enter (ex_env 200 False) (ex_init 200 False)
       (ex_request None) no_options)))
     = acquire_calls (bulkhead (ex_init 200 False)) @ [mergedOptions (ex_env 200 False) no_options]"
    using w2 a r by blast+
  moreover have "ex_explicit = Inr (fst (projr ex_explicit), snd (projr ex_explicit))"
    using c by (simp only: ex_explicit_def)
  ultimately show ?thesis using d a r by blast
qed

section \<open>The deduplication key\<close>







section \<open>Followers\<close>

text \<open>The hit counter is only ever counted up: no part of a job reads it, so a state
  with another counter value goes through every job in the same way.\<close>

lemma hits_acquire_enter:
  "acquire_enter env (st\<lparr> dedupHits := h \<rparr>) rq ao
     = (fst (acquire_enter env st rq ao), (snd (acquire_enter env st rq ao))\<lparr> dedupHits := h \<rparr>)"
  by (simp add: acquire_enter_def Let_def split: option.splits)

lemma hits_acquire_resume:
  "acquire_resume env (st\<lparr> dedupHits := h \<rparr>) rq r
     = (fst (acquire_resume env st rq r), (snd (acquire_resume env st rq r))\<lparr> dedupHits := h \<rparr>)"
  by (cases r)
     (simp_all add: acquire_resume_def tryReserveTokens_def wrapToken_def Let_def
        split: option.splits)

lemma hits_release:
  "release (st\<lparr> dedupHits := h \<rparr>) t
     = (fst (release st t), (snd (release st t))\<lparr> dedupHits := h \<rparr>)"
  by (simp add: release_def releaseTokens_def Let_def case_prod_beta)

lemma hits_settle: "settle (st\<lparr> dedupHits := h \<rparr>) p out = (settle st p out)\<lparr> dedupHits := h \<rparr>"
  by (simp add: settle_def)

lemma hits_cleanup: "cleanup (st\<lparr> dedupHits := h \<rparr>) k p = (cleanup st k p)\<lparr> dedupHits := h \<rparr>"
  by (simp add: cleanup_def)

lemma hits_run_continue:
  "run_continue (st\<lparr> dedupHits := h \<rparr>) i p fn ao res
     = (run_continue st i p fn ao res)\<lparr> dedupHits := h \<rparr>"
  by (cases res) (simp_all add: run_continue_def run_resume_def hits_settle)

lemma hits_work_settles:
  "work_settles (st\<lparr> dedupHits := h \<rparr>) tok out
     = (fst (work_settles st tok out), (snd (work_settles st tok out))\<lparr> dedupHits := h \<rparr>)"
  by (simp add: work_settles_def hits_release split: prod.splits option.splits)

lemma hits_run_enter:
  "run_enter env (st\<lparr> dedupHits := h \<rparr>) rq ao
     = (fst (run_enter env st rq ao),
        (snd (run_enter env st rq ao))\<lparr> dedupHits := h + (if joins env st rq then 1 else 0) \<rparr>)"
proof (cases "env_deduplication env \<and> dedupKey env rq \<noteq> []")
  case False
  have "acquire_enter env (st\<lparr> dedupHits := h, promises := promises st @ [Pending] \<rparr>) rq ao
          = acquire_enter env ((st\<lparr> promises := promises st @ [Pending] \<rparr>)\<lparr> dedupHits := h \<rparr>) rq ao"
    by (rule arg_cong[where f = "\<lambda>s. acquire_enter env s rq ao"]) simp
  then show ?thesis
    using False by (auto simp: run_enter_plain joins_def hits_acquire_enter)
next
  case True
  show ?thesis
  proof (cases "map_of (dedupMap st) (dedupKey env rq)")
    case None
    have "acquire_enter env
            (st\<lparr> dedupHits := h, promises := promises st @ [Pending],
                 dedupMap := dedupMap st @ [(dedupKey env rq, length (promises st))],
                 cleanups := cleanups st @ [(dedupKey env rq, length (promises st))] \<rparr>) rq ao
          = acquire_enter env
            ((st\<lparr> promises := promises st @ [Pending],
                 dedupMap := dedupMap st @ [(dedupKey env rq, length (promises st))],
                 cleanups := cleanups st @ [(dedupKey env rq, length (promises st))] \<rparr>)
               \<lparr> dedupHits := h \<rparr>) rq ao"
      by (rule arg_cong[where f = "\<lambda>s. acquire_enter env s rq ao"]) simp
    then show ?thesis
      using True None by (simp add: run_enter_leads joins_def hits_acquire_enter)
  next
    case (Some p)
    then show ?thesis
      using True by (simp add: run_enter_joins joins_def)
  qed
qed

lemma hits_step:
  "step env (st\<lparr> dedupHits := h \<rparr>) ev
     = (step env st ev)\<lparr> dedupHits := h + (if is_follower env st ev then 1 else 0) \<rparr>"
proof (cases ev)
  case (CallAcquire rq ao)
  then show ?thesis
    by (simp add: hits_acquire_enter case_prod_beta split: AcquireEntered.splits)
next
  case (CallRun rq fn ao)
  then show ?thesis
    by (simp add: hits_run_enter case_prod_beta split: RunEntered.splits)
next
  case (CallRelease t)
  then show ?thesis by (simp add: hits_release)
next
  case (GateSettles i a)
  have "acquire_resume env (st\<lparr> dedupHits := h, bulkhead := g \<rparr>) rq r
          = (fst (acquire_resume env (st\<lparr> bulkhead := g \<rparr>) rq r),
             (snd (acquire_resume env (st\<lparr> bulkhead := g \<rparr>) rq r))\<lparr> dedupHits := h \<rparr>)" for g rq r
  proof -
    have "acquire_resume env (st\<lparr> dedupHits := h, bulkhead := g \<rparr>) rq r
            = acquire_resume env ((st\<lparr> bulkhead := g \<rparr>)\<lparr> dedupHits := h \<rparr>) rq r"
      by (rule arg_cong[where f = "\<lambda>s. acquire_resume env s rq r"]) simp
    then show ?thesis by (simp add: hits_acquire_resume)
  qed
  then show ?thesis
    using GateSettles
    by (simp add: Let_def case_prod_beta hits_run_continue
        split: Task.splits AcquireEntered.splits)
next
  case (Resume i)
  then show ?thesis
    by (simp add: hits_run_continue run_deliver_def hits_settle
        split: Task.splits AcquireEntered.splits)
next
  case (FnSettles i out)
  then show ?thesis
    by (simp add: hits_work_settles case_prod_beta split: Task.splits)
next
  case (Reaction j)
  then show ?thesis
    by (simp add: hits_cleanup case_prod_beta)
qed

lemma is_follower_hits [simp]:
  "is_follower env (st\<lparr> dedupHits := h \<rparr>) ev = is_follower env st ev"
  by (cases ev) (simp_all add: joins_def)

lemma hits_exec:
  "exec env (st\<lparr> dedupHits := h \<rparr>) evs = (exec env st evs)\<lparr> dedupHits := h + followers env st evs \<rparr> \<and>
   followers env (st\<lparr> dedupHits := h \<rparr>) evs = followers env st evs"
proof (induction evs arbitrary: st h)
  case Nil
  show ?case by (simp add: exec_def)
next
  case (Cons ev evs)
  have "exec env (st\<lparr> dedupHits := h \<rparr>) (ev # evs)
          = exec env ((step env st ev)\<lparr> dedupHits := h + (if is_follower env st ev then 1 else 0) \<rparr>) evs"
    by (simp add: exec_def hits_step)
  moreover have "followers env (st\<lparr> dedupHits := h \<rparr>) (ev # evs)
          = (if is_follower env st ev then 1 else 0)
            + followers env ((step env st ev)\<lparr> dedupHits := h + (if is_follower env st ev then 1 else 0) \<rparr>) evs"
    by (simp add: hits_step)
  ultimately show ?case
    using Cons[where st = "step env st ev" and h = "h + (if is_follower env st ev then 1 else 0)"]
    by (simp add: exec_def)
qed

lemma hits_count: "dedupHits (exec env st evs) = dedupHits st + followers env st evs"
proof -
  have "exec env (st\<lparr> dedupHits := dedupHits st \<rparr>) evs
          = (exec env st evs)\<lparr> dedupHits := dedupHits st + followers env st evs \<rparr>"
    using hits_exec by blast
  then have "dedupHits (exec env st evs)
          = dedupHits ((exec env st evs)\<lparr> dedupHits := dedupHits st + followers env st evs \<rparr>)"
    by simp
  then show ?thesis by simp
qed

lemma ex_queued_fields:
  "dedupMap ex_queued = [(''[{\"role\":\"user\",\"content\":\"hello\"}]'', 0)]"
  "dedupHits ex_queued = 0"
  "tasks ex_queued = [RunAwaiting (ex_request None) 0 7 no_options AtGate]"
  "promises ex_queued = [Pending]"
  "fn_calls ex_queued = []"
  by (simp_all add: ex_queued_def ex_defs op_defs)

text \<open>
  C6. With deduplication on, when \<^verbatim>\<open>run\<close> is called with a request whose key has
  an entry \<open>p\<close> in the registry: the call returns that promise \<open>p\<close>; the whole job
  changes nothing but the hit counter, which goes up by one, so no call is suspended
  for it and its work function is never invoked: every later execution is the
  execution without the call, with one more hit. Along any execution the hit counter
  grows by exactly the number of follower calls, and so never decreases. The entry a
  leader installs is the promise the leader itself returns, so follower and leader
  hold the same promise and see the same value or the same error.
\<close>

theorem follower_joins_leader:
  assumes "env_deduplication env" and "dedupKey env rq \<noteq> []"
    and "map_of (dedupMap st) (dedupKey env rq) = Some p"
  shows "fst (run_enter env st rq ao) = Joined p \<and>
         step env st (CallRun rq fn ao) = st\<lparr> dedupHits := Suc (dedupHits st) \<rparr> \<and>
         exec env (step env st (CallRun rq fn ao)) evs
           = (exec env st evs)\<lparr> dedupHits := Suc (dedupHits (exec env st evs)) \<rparr> \<and>
         dedupHits (exec env st evs) = dedupHits st + followers env st evs \<and>
         dedupHits st \<le> dedupHits (exec env st evs) \<and>
         (fst (run_enter env st0 rq ao0) = Entered q e \<longrightarrow>
            map_of (dedupMap (snd (run_enter env st0 rq ao0))) (dedupKey env rq) = Some q)"
proof -
  have j: "run_enter env st rq ao = (Joined p, st\<lparr> dedupHits := Suc (dedupHits st) \<rparr>)"
    by (rule run_enter_joins[OF assms])
  have c: "dedupHits (exec env st evs) = dedupHits st + followers env st evs"
    by (rule hits_count)
  have "exec env (st\<lparr> dedupHits := Suc (dedupHits st) \<rparr>) evs
          = (exec env st evs)\<lparr> dedupHits := Suc (dedupHits st) + followers env st evs \<rparr>"
    using hits_exec by blast
  then have x: "exec env (st\<lparr> dedupHits := Suc (dedupHits st) \<rparr>) evs
          = (exec env st evs)\<lparr> dedupHits := Suc (dedupHits (exec env st evs)) \<rparr>"
    by (simp add: c)
  have l: "map_of (dedupMap (snd (run_enter env st0 rq ao0))) (dedupKey env rq) = Some q"
    if e: "fst (run_enter env st0 rq ao0) = Entered q e"
  proof (cases "map_of (dedupMap st0) (dedupKey env rq)")
    case None
    show ?thesis
      using e None acquire_enter_cases[of env
          "st0\<lparr> promises := promises st0 @ [Pending],
                dedupMap := dedupMap st0 @ [(dedupKey env rq, length (promises st0))],
                cleanups := cleanups st0 @ [(dedupKey env rq, length (promises st0))] \<rparr>" rq ao0]
      by (auto simp: run_enter_leads[OF assms(1,2) None] map_add_def)
  next
    case (Some r)
    then show ?thesis
      using e by (simp add: run_enter_joins[OF assms(1,2) Some])
  qed
  show ?thesis
    using j c x l by simp
qed

theorem follower_joins_leader_witness:
  "env_deduplication (ex_env 200 True) \<and>
   dedupKey (ex_env 200 True) (ex_request None) \<noteq> [] \<and>
   map_of (dedupMap ex_queued) (dedupKey (ex_env 200 True) (ex_request None)) = Some 0 \<and>
   fst (run_enter (ex_env 200 True) (ex_init 200 True) (ex_request None) no_options)
     = Entered 0 AtGate \<and>
   fst (run_enter (ex_env 200 True) ex_queued (ex_request None) no_options) = Joined 0 \<and>
   step (ex_env 200 True) ex_queued (CallRun (ex_request None) 8 no_options)
     = ex_queued\<lparr> dedupHits := Suc (dedupHits ex_queued) \<rparr> \<and>
   exec (ex_env 200 True) (step (ex_env 200 True) ex_queued (CallRun (ex_request None) 8 no_options))
       [GateSettles 0 (Refuse timeout)]
     = (exec (ex_env 200 True) ex_queued [GateSettles 0 (Refuse timeout)])
         \<lparr> dedupHits := Suc (dedupHits (exec (ex_env 200 True) ex_queued [GateSettles 0 (Refuse timeout)])) \<rparr> \<and>
   promises (exec (ex_env 200 True) ex_queued [GateSettles 0 (Refuse timeout)])
     = [Rejected (Rejection (LLMBulkheadRejectedError (Base timeout)))] \<and>
   fn_calls (exec (ex_env 200 True) ex_queued [GateSettles 0 Grant, FnSettles 0 (Inr 5), Resume 0])
     = [(7, None)] \<and>
   promises (exec (ex_env 200 True) ex_queued [GateSettles 0 Grant, FnSettles 0 (Inr 5), Resume 0])
     = [Fulfilled 5] \<and>
   dedupHits (exec (ex_env 200 True) ex_queued
       [CallRun (ex_request None) 8 no_options, CallRun (ex_request (Some 3)) 9 no_options,
        GateSettles 0 (Refuse timeout)]) = 2"
proof -
  have d: "env_deduplication (ex_env 200 True)"
    and k: "dedupKey (ex_env 200 True) (ex_request None) \<noteq> []"
    and m: "map_of (dedupMap ex_queued) (dedupKey (ex_env 200 True) (ex_request None)) = Some 0"
    and l: "fst (run_enter (ex_env 200 True) (ex_init 200 True) (ex_request None) no_options)
              = Entered 0 AtGate"
    by (simp_all add: ex_queued_fields dedupKey_def ex_defs run_enter_def createDeferred_def
        acquire_enter_def Let_def)
  note w = follower_joins_leader [OF d k m, where ao = no_options and fn = 8
      and evs = "[GateSettles 0 (Refuse timeout)]" and ?st0.0 = "ex_init 200 True"
      and ?ao0.0 = no_options and q = 0 and e = AtGate]
  have r: "promises (exec (ex_env 200 True) ex_queued [GateSettles 0 (Refuse timeout)])
     = [Rejected (Rejection (LLMBulkheadRejectedError (Base timeout)))]"
    and f: "fn_calls (exec (ex_env 200 True) ex_queued [GateSettles 0 Grant, FnSettles 0 (Inr 5), Resume 0])
     = [(7, None)]"
    and v: "promises (exec (ex_env 200 True) ex_queued [GateSettles 0 Grant, FnSettles 0 (Inr 5), Resume 0])
     = [Fulfilled 5]"
    and h: "dedupHits (exec (ex_env 200 True) ex_queued
       [CallRun (ex_request None) 8 no_options, CallRun (ex_request (Some 3)) 9 no_options,
        GateSettles 0 (Refuse timeout)]) = 2"
    by (simp_all add: ex_queued_def ex_defs op_defs)
  from w d k m l r f v h show ?thesis by blast
qed

section \<open>The run wrapper\<close>

lemma ex_prerejected_fields:
  "tasks ex_prerejected
     = [RunAwaiting (ex_request None) 0 7 no_options (Returned (NotOk budget_limit))]"
  "promises ex_prerejected = [Pending]"
  "inFlightTokens ex_prerejected = 120"
  "slots (bulkhead ex_prerejected) = [0]"
  by (simp_all add: ex_prerejected_def ex_admitted_def ex_defs op_defs)

lemma run_work_job:
  assumes "i < length (tasks st)" and "tasks st ! i = RunWorking p tok"
    and "tok < length (tokens st)"
    and "tokens st ! tok = \<lparr> base = slot_token sid, reserved = n, released = False \<rparr>"
  shows "step env st (FnSettles i out)
           = st\<lparr> tokens := (tokens st)[tok := \<lparr> base = slot_token sid, reserved = n, released = True \<rparr>],
                  bulkhead := slot_release sid (bulkhead st),
                  inFlightTokens := max 0 (inFlightTokens st - n),
                  tasks := (tasks st)[i := RunWorkSettled p out] \<rparr>"
  using assms by (simp add: work_settles_def release_slot_token[OF assms(3,4)])

lemma run_deliver_job:
  assumes "i < length (tasks st)" and "tasks st ! i = RunWorkSettled p w"
    and "p < length (promises st)" and "promises st ! p = Pending"
  shows "step env st (Resume i)
           = st\<lparr> promises := (promises st)[p := (case w of Inl e \<Rightarrow> Rejected e | Inr v \<Rightarrow> Fulfilled v)],
                  tasks := remove_at i (tasks st) \<rparr>"
  using assms by (simp add: run_deliver_def settle_def)

lemma remove_at_update: "remove_at i (xs[i := x]) = remove_at i xs"
  by (simp add: remove_at_def)

lemma run_whole:
  assumes "i < length (tasks st)" and "p < length (promises st)" and "promises st ! p = Pending"
    and "tasks st ! i = RunAwaiting rq p fn ao AtGate" and "headroom env st rq"
  shows "exec env st [GateSettles i Grant, FnSettles i out]
           = st\<lparr> bulkhead := (bulkhead st)\<lparr> slots := removeAll (next_slot (bulkhead st)) (slots (bulkhead st)),
                                            next_slot := Suc (next_slot (bulkhead st)) \<rparr>,
                  inFlightTokens := max 0 (inFlightTokens st),
                  tokens := tokens st @ [\<lparr> base = slot_token (next_slot (bulkhead st)),
                                          reserved = reservation env rq, released = True \<rparr>],
                  fn_calls := fn_calls st @ [(fn, signal ao)],
                  tasks := (tasks st)[i := RunWorkSettled p out] \<rparr>"
    and "exec env st [GateSettles i Grant, FnSettles i out, Resume i]
           = st\<lparr> bulkhead := (bulkhead st)\<lparr> slots := removeAll (next_slot (bulkhead st)) (slots (bulkhead st)),
                                            next_slot := Suc (next_slot (bulkhead st)) \<rparr>,
                  inFlightTokens := max 0 (inFlightTokens st),
                  tokens := tokens st @ [\<lparr> base = slot_token (next_slot (bulkhead st)),
                                          reserved = reservation env rq, released = True \<rparr>],
                  fn_calls := fn_calls st @ [(fn, signal ao)],
                  promises := (promises st)[p := (case out of Inl e \<Rightarrow> Rejected e | Inr v \<Rightarrow> Fulfilled v)],
                  tasks := remove_at i (tasks st) \<rparr>"
proof -
  define s1 where "s1 = step env st (GateSettles i Grant)"
  have e1: "s1 = st\<lparr> bulkhead := (bulkhead st)\<lparr> slots := slots (bulkhead st) @ [next_slot (bulkhead st)],
                                            next_slot := Suc (next_slot (bulkhead st)) \<rparr>,
                  inFlightTokens := inFlightTokens st + reservation env rq,
                  tokens := tokens st @ [\<lparr> base = slot_token (next_slot (bulkhead st)),
                                          reserved = reservation env rq, released = False \<rparr>],
                  fn_calls := fn_calls st @ [(fn, signal ao)],
                  tasks := (tasks st)[i := RunWorking p (length (tokens st))] \<rparr>"
    unfolding s1_def by (rule run_job_granted[OF assms(1,4,5)])
  have a1: "i < length (tasks s1)" "tasks s1 ! i = RunWorking p (length (tokens st))"
    "length (tokens st) < length (tokens s1)"
    "tokens s1 ! length (tokens st)
       = \<lparr> base = slot_token (next_slot (bulkhead st)), reserved = reservation env rq, released = False \<rparr>"
    using assms(1) by (simp_all add: e1)
  define s2 where "s2 = step env s1 (FnSettles i out)"
  have e2: "s2 = s1\<lparr> tokens := (tokens s1)[length (tokens st)
                        := \<lparr> base = slot_token (next_slot (bulkhead st)),
                             reserved = reservation env rq, released = True \<rparr>],
                  bulkhead := slot_release (next_slot (bulkhead st)) (bulkhead s1),
                  inFlightTokens := max 0 (inFlightTokens s1 - reservation env rq),
                  tasks := (tasks s1)[i := RunWorkSettled p out] \<rparr>"
    unfolding s2_def by (rule run_work_job[OF a1])
  have e2': "s2 = st\<lparr> bulkhead := (bulkhead st)\<lparr> slots := removeAll (next_slot (bulkhead st)) (slots (bulkhead st)),
                                            next_slot := Suc (next_slot (bulkhead st)) \<rparr>,
                  inFlightTokens := max 0 (inFlightTokens st),
                  tokens := tokens st @ [\<lparr> base = slot_token (next_slot (bulkhead st)),
                                          reserved = reservation env rq, released = True \<rparr>],
                  fn_calls := fn_calls st @ [(fn, signal ao)],
                  tasks := (tasks st)[i := RunWorkSettled p out] \<rparr>"
    unfolding e2 by (simp add: e1 slot_release_def)
  have a2: "i < length (tasks s2)" "tasks s2 ! i = RunWorkSettled p out"
    "p < length (promises s2)" "promises s2 ! p = Pending"
    using assms(1,2,3) by (simp_all add: e2')
  have e3: "step env s2 (Resume i)
           = s2\<lparr> promises := (promises s2)[p := (case out of Inl e \<Rightarrow> Rejected e | Inr v \<Rightarrow> Fulfilled v)],
                  tasks := remove_at i (tasks s2) \<rparr>"
    by (rule run_deliver_job[OF a2])
  show "exec env st [GateSettles i Grant, FnSettles i out]
           = st\<lparr> bulkhead := (bulkhead st)\<lparr> slots := removeAll (next_slot (bulkhead st)) (slots (bulkhead st)),
                                            next_slot := Suc (next_slot (bulkhead st)) \<rparr>,
                  inFlightTokens := max 0 (inFlightTokens st),
                  tokens := tokens st @ [\<lparr> base = slot_token (next_slot (bulkhead st)),
                                          reserved = reservation env rq, released = True \<rparr>],
                  fn_calls := fn_calls st @ [(fn, signal ao)],
                  tasks := (tasks st)[i := RunWorkSettled p out] \<rparr>"
    using e2' by (simp add: exec_def s2_def s1_def)
  have "exec env st [GateSettles i Grant, FnSettles i out, Resume i] = step env s2 (Resume i)"
    by (simp add: exec_def s2_def s1_def)
  then show "exec env st [GateSettles i Grant, FnSettles i out, Resume i]
           = st\<lparr> bulkhead := (bulkhead st)\<lparr> slots := removeAll (next_slot (bulkhead st)) (slots (bulkhead st)),
                                            next_slot := Suc (next_slot (bulkhead st)) \<rparr>,
                  inFlightTokens := max 0 (inFlightTokens st),
                  tokens := tokens st @ [\<lparr> base = slot_token (next_slot (bulkhead st)),
                                          reserved = reservation env rq, released = True \<rparr>],
                  fn_calls := fn_calls st @ [(fn, signal ao)],
                  promises := (promises st)[p := (case out of Inl e \<Rightarrow> Rejected e | Inr v \<Rightarrow> Fulfilled v)],
                  tasks := remove_at i (tasks st) \<rparr>"
    unfolding e3 by (simp add: e2' remove_at_update)
qed

text \<open>
  C5 (as amended). For a suspended \<^verbatim>\<open>run\<close> call \<open>i\<close> with pending result promise
  \<open>p\<close>:
  \<^item> when admission is rejected with reason \<open>rsn\<close> by the budget check before the
    gate or by the gate, the promise is rejected with
    \<^verbatim>\<open>LLMBulkheadRejectedError(rsn)\<close> and nothing else changes; when it is rejected
    by the budget check after the gate's grant, the promise is rejected with the
    \<^verbatim>\<open>LLMBulkheadRejectedError\<close> of \<^verbatim>\<open>budget_limit\<close>, the work function is not
    invoked, no token is made and the counter is as before; the error carries the code
    \<^verbatim>\<open>LLM_BULKHEAD_REJECTED\<close> and the reason, and its code tells it from every
    thrown value that does not carry that code;
  \<^item> when the gate grants and the reservation succeeds, that job makes the wrapped
    token of the granted slot, with the request's reservation, invokes the call's own
    work function with the call's signal, and the call holds that token;
  \<^item> when the work function then gives \<open>out\<close>, that job releases the slot and
    returns the reservation and leaves the promise pending; the promise settles in the
    next job of the call, fulfilled with the value, or rejected with exactly what the
    work function threw, and that job leaves the gate and the counter alone; from the
    grant to the settlement, the counter ends at \<open>max 0\<close> of its value before the
    grant (which is that value, as it is never negative) and the granted slot is free
    again.
\<close>

theorem run_releases_then_settles:
  assumes "i < length (tasks st)" and "p < length (promises st)" and "promises st ! p = Pending"
  shows "(tasks st ! i = RunAwaiting rq p fn ao (Returned (NotOk rsn)) \<longrightarrow>
            step env st (Resume i)
              = st\<lparr> promises := (promises st)[p := Rejected (Rejection (LLMBulkheadRejectedError rsn))],
                     tasks := remove_at i (tasks st) \<rparr>) \<and>
         (tasks st ! i = RunAwaiting rq p fn ao AtGate \<longrightarrow>
            step env st (GateSettles i (Refuse r))
              = st\<lparr> promises := (promises st)[p := Rejected (Rejection (LLMBulkheadRejectedError (Base r)))],
                     tasks := remove_at i (tasks st) \<rparr>) \<and>
         (tasks st ! i = RunAwaiting rq p fn ao AtGate \<and> \<not> headroom env st rq \<longrightarrow>
            promises (step env st (GateSettles i Grant))
              = (promises st)[p := Rejected (Rejection (LLMBulkheadRejectedError budget_limit))] \<and>
            fn_calls (step env st (GateSettles i Grant)) = fn_calls st \<and>
            tokens (step env st (GateSettles i Grant)) = tokens st \<and>
            inFlightTokens (step env st (GateSettles i Grant)) = inFlightTokens st) \<and>
         code (LLMBulkheadRejectedError rsn) = ''LLM_BULKHEAD_REJECTED'' \<and>
         reason (LLMBulkheadRejectedError rsn) = rsn \<and>
         thrown_code code_of (Rejection (LLMBulkheadRejectedError rsn)) = Some ''LLM_BULKHEAD_REJECTED'' \<and>
         (thrown_code code_of x \<noteq> Some ''LLM_BULKHEAD_REJECTED'' \<longrightarrow>
            x \<noteq> Rejection (LLMBulkheadRejectedError rsn) \<and>
            thrown_code code_of x \<noteq> thrown_code code_of (Rejection (LLMBulkheadRejectedError rsn))) \<and>
         (tasks st ! i = RunAwaiting rq p fn ao AtGate \<and> headroom env st rq \<longrightarrow>
            step env st (GateSettles i Grant)
              = st\<lparr> bulkhead := (bulkhead st)\<lparr> slots := slots (bulkhead st) @ [next_slot (bulkhead st)],
                                               next_slot := Suc (next_slot (bulkhead st)) \<rparr>,
                     inFlightTokens := inFlightTokens st + reservation env rq,
                     tokens := tokens st @ [\<lparr> base = slot_token (next_slot (bulkhead st)),
                                             reserved = reservation env rq, released = False \<rparr>],
                     fn_calls := fn_calls st @ [(fn, signal ao)],
                     tasks := (tasks st)[i := RunWorking p (length (tokens st))] \<rparr> \<and>
            exec env st [GateSettles i Grant, FnSettles i out]
              = st\<lparr> bulkhead := (bulkhead st)
                       \<lparr> slots := removeAll (next_slot (bulkhead st)) (slots (bulkhead st)),
                         next_slot := Suc (next_slot (bulkhead st)) \<rparr>,
                     inFlightTokens := max 0 (inFlightTokens st),
                     tokens := tokens st @ [\<lparr> base = slot_token (next_slot (bulkhead st)),
                                             reserved = reservation env rq, released = True \<rparr>],
                     fn_calls := fn_calls st @ [(fn, signal ao)],
                     tasks := (tasks st)[i := RunWorkSettled p out] \<rparr> \<and>
            promises (exec env st [GateSettles i Grant, FnSettles i out]) ! p = Pending \<and>
            exec env st [GateSettles i Grant, FnSettles i out, Resume i]
              = st\<lparr> bulkhead := (bulkhead st)
                       \<lparr> slots := removeAll (next_slot (bulkhead st)) (slots (bulkhead st)),
                         next_slot := Suc (next_slot (bulkhead st)) \<rparr>,
                     inFlightTokens := max 0 (inFlightTokens st),
                     tokens := tokens st @ [\<lparr> base = slot_token (next_slot (bulkhead st)),
                                             reserved = reservation env rq, released = True \<rparr>],
                     fn_calls := fn_calls st @ [(fn, signal ao)],
                     promises := (promises st)
                       [p := (case out of Inl e \<Rightarrow> Rejected e | Inr v \<Rightarrow> Fulfilled v)],
                     tasks := remove_at i (tasks st) \<rparr>) \<and>
         (tasks st ! i = RunWorking p tok \<and> tok < length (tokens st) \<and>
          tokens st ! tok = \<lparr> base = slot_token sid, reserved = n, released = False \<rparr> \<longrightarrow>
            step env st (FnSettles i out)
              = st\<lparr> tokens := (tokens st)[tok := \<lparr> base = slot_token sid, reserved = n, released = True \<rparr>],
                     bulkhead := slot_release sid (bulkhead st),
                     inFlightTokens := max 0 (inFlightTokens st - n),
                     tasks := (tasks st)[i := RunWorkSettled p out] \<rparr> \<and>
            promises (step env st (FnSettles i out)) ! p = Pending \<and>
            sid \<notin> set (slots (bulkhead (step env st (FnSettles i out)))) \<and>
            inFlightTokens (step env st (FnSettles i out)) = max 0 (inFlightTokens st - n) \<and>
            released (tokens (step env st (FnSettles i out)) ! tok) \<and>
            step env (step env st (FnSettles i out)) (Resume i)
              = (step env st (FnSettles i out))
                  \<lparr> promises := (promises st)[p := (case out of Inl e \<Rightarrow> Rejected e | Inr v \<Rightarrow> Fulfilled v)],
                    tasks := remove_at i (tasks (step env st (FnSettles i out))) \<rparr>)"
proof -
  have a: "step env st (Resume i)
              = st\<lparr> promises := (promises st)[p := Rejected (Rejection (LLMBulkheadRejectedError rsn))],
                     tasks := remove_at i (tasks st) \<rparr>"
    if "tasks st ! i = RunAwaiting rq p fn ao (Returned (NotOk rsn))"
    using that assms by (simp add: run_continue_def run_resume_def settle_def)
  have b: "step env st (GateSettles i (Refuse r))
              = st\<lparr> promises := (promises st)[p := Rejected (Rejection (LLMBulkheadRejectedError (Base r)))],
                     tasks := remove_at i (tasks st) \<rparr>"
    if "tasks st ! i = RunAwaiting rq p fn ao AtGate"
    using that assms
    by (simp add: gate_settle_def acquire_resume_def run_continue_def run_resume_def settle_def)
  have b': "promises (step env st (GateSettles i Grant))
              = (promises st)[p := Rejected (Rejection (LLMBulkheadRejectedError budget_limit))] \<and>
            fn_calls (step env st (GateSettles i Grant)) = fn_calls st \<and>
            tokens (step env st (GateSettles i Grant)) = tokens st \<and>
            inFlightTokens (step env st (GateSettles i Grant)) = inFlightTokens st"
    if "tasks st ! i = RunAwaiting rq p fn ao AtGate" and "\<not> headroom env st rq"
    using that assms
    by (simp add: gate_settle_def acquire_resume_def reserve_no_headroom run_continue_def
        run_resume_def settle_def)
  have c: "step env st (FnSettles i out)
              = st\<lparr> tokens := (tokens st)[tok := \<lparr> base = slot_token sid, reserved = n, released = True \<rparr>],
                     bulkhead := slot_release sid (bulkhead st),
                     inFlightTokens := max 0 (inFlightTokens st - n),
                     tasks := (tasks st)[i := RunWorkSettled p out] \<rparr>"
    if "tasks st ! i = RunWorking p tok" and "tok < length (tokens st)"
      and "tokens st ! tok = \<lparr> base = slot_token sid, reserved = n, released = False \<rparr>"
    by (rule run_work_job[OF assms(1) that])
  have d: "step env (step env st (FnSettles i out)) (Resume i)
              = (step env st (FnSettles i out))
                  \<lparr> promises := (promises st)[p := (case out of Inl e \<Rightarrow> Rejected e | Inr v \<Rightarrow> Fulfilled v)],
                    tasks := remove_at i (tasks (step env st (FnSettles i out))) \<rparr>"
    if "tasks st ! i = RunWorking p tok" and "tok < length (tokens st)"
      and "tokens st ! tok = \<lparr> base = slot_token sid, reserved = n, released = False \<rparr>"
    unfolding c[OF that] using assms by (simp add: run_deliver_def settle_def)
  have e: "promises (step env st (FnSettles i out)) ! p = Pending \<and>
            sid \<notin> set (slots (bulkhead (step env st (FnSettles i out)))) \<and>
            inFlightTokens (step env st (FnSettles i out)) = max 0 (inFlightTokens st - n) \<and>
            released (tokens (step env st (FnSettles i out)) ! tok)"
    if "tasks st ! i = RunWorking p tok" and "tok < length (tokens st)"
      and "tokens st ! tok = \<lparr> base = slot_token sid, reserved = n, released = False \<rparr>"
    unfolding c[OF that] using assms that(2) by (simp add: slot_release_def)
  have f: "code (LLMBulkheadRejectedError rsn) = ''LLM_BULKHEAD_REJECTED'' \<and>
           reason (LLMBulkheadRejectedError rsn) = rsn \<and>
           thrown_code code_of (Rejection (LLMBulkheadRejectedError rsn)) = Some ''LLM_BULKHEAD_REJECTED''"
    by (simp add: LLMBulkheadRejectedError_def thrown_code_def)
  have f': "x \<noteq> Rejection (LLMBulkheadRejectedError rsn) \<and>
            thrown_code code_of x \<noteq> thrown_code code_of (Rejection (LLMBulkheadRejectedError rsn))"
    if "thrown_code code_of x \<noteq> Some ''LLM_BULKHEAD_REJECTED''"
    using that f by auto
  have g: "step env st (GateSettles i Grant)
              = st\<lparr> bulkhead := (bulkhead st)\<lparr> slots := slots (bulkhead st) @ [next_slot (bulkhead st)],
                                               next_slot := Suc (next_slot (bulkhead st)) \<rparr>,
                     inFlightTokens := inFlightTokens st + reservation env rq,
                     tokens := tokens st @ [\<lparr> base = slot_token (next_slot (bulkhead st)),
                                             reserved = reservation env rq, released = False \<rparr>],
                     fn_calls := fn_calls st @ [(fn, signal ao)],
                     tasks := (tasks st)[i := RunWorking p (length (tokens st))] \<rparr>"
    if "tasks st ! i = RunAwaiting rq p fn ao AtGate" and "headroom env st rq"
    by (rule run_job_granted[OF assms(1) that])
  note h = run_whole[OF assms, of rq fn ao env out]
  have h': "promises (exec env st [GateSettles i Grant, FnSettles i out]) ! p = Pending"
    if "tasks st ! i = RunAwaiting rq p fn ao AtGate" and "headroom env st rq"
    unfolding h(1)[OF that] using assms(3) by simp
  from a b b' c d e f f' g h h' show ?thesis
    by blast
qed

theorem run_releases_then_settles_witness:
  "tasks ex_prerejected ! 0
     = RunAwaiting (ex_request None) 0 7 no_options (Returned (NotOk budget_limit)) \<and>
   promises ex_prerejected ! 0 = Pending \<and>
   promises (step (ex_env 200 False) ex_prerejected (Resume 0))
     = [Rejected (Rejection (LLMBulkheadRejectedError budget_limit))] \<and>
   tasks (ex_contended False) ! 0 = RunAwaiting (ex_request None) 0 7 no_options AtGate \<and>
   promises (ex_contended False) ! 0 = Pending \<and>
   promises (step (ex_env 200 False) (ex_contended False) (GateSettles 0 (Refuse timeout)))
     = [Rejected (Rejection (LLMBulkheadRejectedError (Base timeout)))] \<and>
   \<not> headroom (ex_env 200 False) (ex_contended False) (ex_request None) \<and>
   promises (step (ex_env 200 False) (ex_contended False) (GateSettles 0 Grant))
     = [Rejected (Rejection (LLMBulkheadRejectedError budget_limit))] \<and>
   fn_calls (step (ex_env 200 False) (ex_contended False) (GateSettles 0 Grant)) = [] \<and>
   thrown_code ex_code_of (OtherError ''boom'') \<noteq> Some ''LLM_BULKHEAD_REJECTED'' \<and>
   thrown_code ex_code_of (OtherError ''boom'')
     \<noteq> thrown_code ex_code_of (Rejection (LLMBulkheadRejectedError budget_limit)) \<and>
   tasks ex_queued ! 0 = RunAwaiting (ex_request None) 0 7 no_options AtGate \<and>
   promises ex_queued ! 0 = Pending \<and>
   headroom (ex_env 200 True) ex_queued (ex_request None) \<and>
   reservation (ex_env 200 True) (ex_request None) = 120 \<and>
   tokens (step (ex_env 200 True) ex_queued (GateSettles 0 Grant))
     = [\<lparr> base = slot_token 0, reserved = 120, released = False \<rparr>] \<and>
   fn_calls (step (ex_env 200 True) ex_queued (GateSettles 0 Grant)) = [(7, None)] \<and>
   tasks (step (ex_env 200 True) ex_queued (GateSettles 0 Grant)) = [RunWorking 0 0] \<and>
   inFlightTokens (step (ex_env 200 True) ex_queued (GateSettles 0 Grant)) = 120 \<and>
   promises (exec (ex_env 200 True) ex_queued
       [GateSettles 0 Grant, FnSettles 0 (Inl (OtherError ''boom''))]) ! 0 = Pending \<and>
   inFlightTokens (exec (ex_env 200 True) ex_queued
       [GateSettles 0 Grant, FnSettles 0 (Inl (OtherError ''boom''))]) = 0 \<and>
   slots (bulkhead (exec (ex_env 200 True) ex_queued
       [GateSettles 0 Grant, FnSettles 0 (Inl (OtherError ''boom''))])) = [] \<and>
   promises (exec (ex_env 200 True) ex_queued
       [GateSettles 0 Grant, FnSettles 0 (Inl (OtherError ''boom'')), Resume 0])
     = [Rejected (OtherError ''boom'')] \<and>
   tasks ex_leading ! 0 = RunWorking 0 0 \<and>
   tokens ex_leading ! 0 = \<lparr> base = slot_token 0, reserved = 120, released = False \<rparr> \<and>
   promises ex_leading ! 0 = Pending \<and>
   inFlightTokens ex_leading = 120 \<and>
   slots (bulkhead ex_leading) = [0] \<and>
   promises (step (ex_env 200 True) ex_leading (FnSettles 0 (Inl (OtherError ''boom'')))) ! 0
     = Pending \<and>
   0 \<notin> set (slots (bulkhead (step (ex_env 200 True) ex_leading (FnSettles 0 (Inl (OtherError ''boom'')))))) \<and>
   inFlightTokens (step (ex_env 200 True) ex_leading (FnSettles 0 (Inl (OtherError ''boom'')))) = 0 \<and>
   promises (step (ex_env 200 True)
       (step (ex_env 200 True) ex_leading (FnSettles 0 (Inl (OtherError ''boom'')))) (Resume 0))
     = [Rejected (OtherError ''boom'')] \<and>
   promises (step (ex_env 200 True)
       (step (ex_env 200 True) ex_leading (FnSettles 0 (Inr 5))) (Resume 0))
     = [Fulfilled 5]"
proof -
  let ?boom = "Inl (OtherError ''boom'') :: string thrown + nat"
  have t1: "tasks ex_prerejected ! 0
     = RunAwaiting (ex_request None) 0 7 no_options (Returned (NotOk budget_limit))"
    and p1: "promises ex_prerejected ! 0 = Pending"
    and l1: "0 < length (tasks ex_prerejected)" "0 < length (promises ex_prerejected)"
    by (simp_all add: ex_prerejected_fields)
  have t2: "tasks (ex_contended False) ! 0 = RunAwaiting (ex_request None) 0 7 no_options AtGate"
    and p2: "promises (ex_contended False) ! 0 = Pending"
    and l2: "0 < length (tasks (ex_contended False))" "0 < length (promises (ex_contended False))"
    and h2: "\<not> headroom (ex_env 200 False) (ex_contended False) (ex_request None)"
    by (simp_all add: ex_contended_fields ex_reservation)
  have t3: "tasks ex_leading ! 0 = RunWorking 0 0"
    and k3: "tokens ex_leading ! 0 = \<lparr> base = slot_token 0, reserved = 120, released = False \<rparr>"
    and p3: "promises ex_leading ! 0 = Pending"
    and l3: "0 < length (tasks ex_leading)" "0 < length (promises ex_leading)"
            "0 < length (tokens ex_leading)"
    and i3: "inFlightTokens ex_leading = 120" and s3: "slots (bulkhead ex_leading) = [0]"
    by (simp_all add: ex_leading_fields)
  have t4: "tasks ex_queued ! 0 = RunAwaiting (ex_request None) 0 7 no_options AtGate"
    and p4: "promises ex_queued ! 0 = Pending"
    and l4: "0 < length (tasks ex_queued)" "0 < length (promises ex_queued)"
    and h4: "headroom (ex_env 200 True) ex_queued (ex_request None)"
    and r4: "reservation (ex_env 200 True) (ex_request None) = 120"
    and q4: "tokens ex_queued = []" "fn_calls ex_queued = []" "inFlightTokens ex_queued = 0"
      "slots (bulkhead ex_queued) = []" "tasks ex_queued = [RunAwaiting (ex_request None) 0 7 no_options AtGate]"
      "next_slot (bulkhead ex_queued) = 0" "promises ex_queued = [Pending]"
    by (simp_all add: ex_queued_fields ex_reservation)
       (simp_all add: ex_queued_def ex_defs op_defs)
  have c0: "thrown_code ex_code_of (OtherError ''boom'') \<noteq> Some ''LLM_BULKHEAD_REJECTED''"
    by (simp add: thrown_code_def ex_code_of_def)
  note w1 = run_releases_then_settles [OF l1(1) l1(2) p1, where env = "ex_env 200 False"
      and rq = "ex_request None" and fn = 7 and ao = no_options and rsn = budget_limit
      and r = timeout and x = "OtherError ''boom''" and tok = 0 and sid = 0 and n = 120
      and out = "Inr 5" and code_of = ex_code_of]
  note w2 = run_releases_then_settles [OF l2(1) l2(2) p2, where env = "ex_env 200 False"
      and rq = "ex_request None" and fn = 7 and ao = no_options and rsn = budget_limit
      and r = timeout and x = "OtherError ''boom''" and tok = 0 and sid = 0 and n = 120
      and out = "Inr 5" and code_of = ex_code_of]
  note w3 = run_releases_then_settles [OF l3(1) l3(2) p3, where env = "ex_env 200 True"
      and rq = "ex_request None" and fn = 7 and ao = no_options and rsn = budget_limit
      and r = timeout and x = "OtherError ''boom''" and tok = 0 and sid = 0 and n = 120
      and out = ?boom and code_of = ex_code_of]
  note w4 = run_releases_then_settles [OF l3(1) l3(2) p3, where env = "ex_env 200 True"
      and rq = "ex_request None" and fn = 7 and ao = no_options and rsn = budget_limit
      and r = timeout and x = "OtherError ''boom''" and tok = 0 and sid = 0 and n = 120
      and out = "Inr 5" and code_of = ex_code_of]
  note w5 = run_releases_then_settles [OF l4(1) l4(2) p4, where env = "ex_env 200 True"
      and rq = "ex_request None" and fn = 7 and ao = no_options and rsn = budget_limit
      and r = timeout and x = "OtherError ''boom''" and tok = 0 and sid = 0 and n = 120
      and out = ?boom and code_of = ex_code_of]
  have a: "promises (step (ex_env 200 False) ex_prerejected (Resume 0))
     = [Rejected (Rejection (LLMBulkheadRejectedError budget_limit))]"
  proof -
    have "step (ex_env 200 False) ex_prerejected (Resume 0)
            = ex_prerejected\<lparr> promises := (promises ex_prerejected)
                  [0 := Rejected (Rejection (LLMBulkheadRejectedError budget_limit))],
                tasks := remove_at 0 (tasks ex_prerejected) \<rparr>"
      using w1 t1 by blast
    then show ?thesis by (simp add: ex_prerejected_fields)
  qed
  have b: "promises (step (ex_env 200 False) (ex_contended False) (GateSettles 0 (Refuse timeout)))
     = [Rejected (Rejection (LLMBulkheadRejectedError (Base timeout)))]"
  proof -
    have "step (ex_env 200 False) (ex_contended False) (GateSettles 0 (Refuse timeout))
            = (ex_contended False)\<lparr> promises := (promises (ex_contended False))
                  [0 := Rejected (Rejection (LLMBulkheadRejectedError (Base timeout)))],
                tasks := remove_at 0 (tasks (ex_contended False)) \<rparr>"
      using w2 t2 by blast
    then show ?thesis by (simp add: ex_contended_fields)
  qed
  have b1: "promises (step (ex_env 200 False) (ex_contended False) (GateSettles 0 Grant))
              = (promises (ex_contended False))
                  [0 := Rejected (Rejection (LLMBulkheadRejectedError budget_limit))]"
    and b2: "fn_calls (step (ex_env 200 False) (ex_contended False) (GateSettles 0 Grant))
              = fn_calls (ex_contended False)"
    using w2 t2 h2 by blast+
  have b1': "promises (step (ex_env 200 False) (ex_contended False) (GateSettles 0 Grant))
     = [Rejected (Rejection (LLMBulkheadRejectedError budget_limit))]"
    and b2': "fn_calls (step (ex_env 200 False) (ex_contended False) (GateSettles 0 Grant)) = []"
    using b1 b2 by (simp_all add: ex_contended_fields)
  have c1: "thrown_code ex_code_of (OtherError ''boom'')
     \<noteq> thrown_code ex_code_of (Rejection (LLMBulkheadRejectedError budget_limit))"
    using w1 c0 by blast
  have g1: "step (ex_env 200 True) ex_queued (GateSettles 0 Grant)
              = ex_queued\<lparr> bulkhead := (bulkhead ex_queued)
                       \<lparr> slots := slots (bulkhead ex_queued) @ [next_slot (bulkhead ex_queued)],
                         next_slot := Suc (next_slot (bulkhead ex_queued)) \<rparr>,
                     inFlightTokens := inFlightTokens ex_queued + reservation (ex_env 200 True) (ex_request None),
                     tokens := tokens ex_queued @ [\<lparr> base = slot_token (next_slot (bulkhead ex_queued)),
                                             reserved = reservation (ex_env 200 True) (ex_request None),
                                             released = False \<rparr>],
                     fn_calls := fn_calls ex_queued @ [(7, signal no_options)],
                     tasks := (tasks ex_queued)[0 := RunWorking 0 (length (tokens ex_queued))] \<rparr>"
    and g2: "exec (ex_env 200 True) ex_queued [GateSettles 0 Grant, FnSettles 0 ?boom]
              = ex_queued\<lparr> bulkhead := (bulkhead ex_queued)
                       \<lparr> slots := removeAll (next_slot (bulkhead ex_queued)) (slots (bulkhead ex_queued)),
                         next_slot := Suc (next_slot (bulkhead ex_queued)) \<rparr>,
                     inFlightTokens := max 0 (inFlightTokens ex_queued),
                     tokens := tokens ex_queued @ [\<lparr> base = slot_token (next_slot (bulkhead ex_queued)),
                                             reserved = reservation (ex_env 200 True) (ex_request None),
                                             released = True \<rparr>],
                     fn_calls := fn_calls ex_queued @ [(7, signal no_options)],
                     tasks := (tasks ex_queued)[0 := RunWorkSettled 0 ?boom] \<rparr>"
    and g3: "promises (exec (ex_env 200 True) ex_queued [GateSettles 0 Grant, FnSettles 0 ?boom]) ! 0
              = Pending"
    and g4: "exec (ex_env 200 True) ex_queued [GateSettles 0 Grant, FnSettles 0 ?boom, Resume 0]
              = ex_queued\<lparr> bulkhead := (bulkhead ex_queued)
                       \<lparr> slots := removeAll (next_slot (bulkhead ex_queued)) (slots (bulkhead ex_queued)),
                         next_slot := Suc (next_slot (bulkhead ex_queued)) \<rparr>,
                     inFlightTokens := max 0 (inFlightTokens ex_queued),
                     tokens := tokens ex_queued @ [\<lparr> base = slot_token (next_slot (bulkhead ex_queued)),
                                             reserved = reservation (ex_env 200 True) (ex_request None),
                                             released = True \<rparr>],
                     fn_calls := fn_calls ex_queued @ [(7, signal no_options)],
                     promises := (promises ex_queued)
                       [0 := (case ?boom of Inl e \<Rightarrow> Rejected e | Inr v \<Rightarrow> Fulfilled v)],
                     tasks := remove_at 0 (tasks ex_queued) \<rparr>"
    using w5 t4 h4 by blast+
  have g1': "tokens (step (ex_env 200 True) ex_queued (GateSettles 0 Grant))
     = [\<lparr> base = slot_token 0, reserved = 120, released = False \<rparr>]"
    and g1'': "fn_calls (step (ex_env 200 True) ex_queued (GateSettles 0 Grant)) = [(7, None)]"
      "tasks (step (ex_env 200 True) ex_queued (GateSettles 0 Grant)) = [RunWorking 0 0]"
      "inFlightTokens (step (ex_env 200 True) ex_queued (GateSettles 0 Grant)) = 120"
    unfolding g1 by (simp_all add: q4 r4 no_options_def)
  have g2': "inFlightTokens (exec (ex_env 200 True) ex_queued [GateSettles 0 Grant, FnSettles 0 ?boom]) = 0"
    and g2'': "slots (bulkhead (exec (ex_env 200 True) ex_queued [GateSettles 0 Grant, FnSettles 0 ?boom])) = []"
    unfolding g2 by (simp_all add: q4)
  have g4': "promises (exec (ex_env 200 True) ex_queued [GateSettles 0 Grant, FnSettles 0 ?boom, Resume 0])
     = [Rejected (OtherError ''boom'')]"
    unfolding g4 by (simp add: q4)
  have c: "promises (step (ex_env 200 True) ex_leading (FnSettles 0 ?boom)) ! 0
     = Pending"
    and d: "0 \<notin> set (slots (bulkhead (step (ex_env 200 True) ex_leading (FnSettles 0 ?boom))))"
    and e: "inFlightTokens (step (ex_env 200 True) ex_leading (FnSettles 0 ?boom))
              = max 0 (inFlightTokens ex_leading - 120)"
    and f: "step (ex_env 200 True)
              (step (ex_env 200 True) ex_leading (FnSettles 0 ?boom)) (Resume 0)
            = (step (ex_env 200 True) ex_leading (FnSettles 0 ?boom))
                \<lparr> promises := (promises ex_leading)
                    [0 := (case ?boom of Inl e \<Rightarrow> Rejected e | Inr v \<Rightarrow> Fulfilled v)],
                  tasks := remove_at 0
                    (tasks (step (ex_env 200 True) ex_leading (FnSettles 0 ?boom))) \<rparr>"
    using w3 t3 k3 l3(3) by blast+
  have g: "step (ex_env 200 True)
              (step (ex_env 200 True) ex_leading (FnSettles 0 (Inr 5))) (Resume 0)
            = (step (ex_env 200 True) ex_leading (FnSettles 0 (Inr 5)))
                \<lparr> promises := (promises ex_leading)
                    [0 := (case Inr 5 of Inl e \<Rightarrow> Rejected e | Inr v \<Rightarrow> Fulfilled v)],
                  tasks := remove_at 0
                    (tasks (step (ex_env 200 True) ex_leading (FnSettles 0 (Inr 5)))) \<rparr>"
    using w4 t3 k3 l3(3) by blast
  have e': "inFlightTokens (step (ex_env 200 True) ex_leading (FnSettles 0 ?boom)) = 0"
    using e i3 by simp
  have f': "promises (step (ex_env 200 True)
       (step (ex_env 200 True) ex_leading (FnSettles 0 ?boom)) (Resume 0))
     = [Rejected (OtherError ''boom'')]"
    unfolding f by (simp add: ex_leading_fields)
  have g': "promises (step (ex_env 200 True)
       (step (ex_env 200 True) ex_leading (FnSettles 0 (Inr 5))) (Resume 0))
     = [Fulfilled 5]"
    unfolding g by (simp add: ex_leading_fields)
  from t1 p1 a t2 p2 b h2 b1' b2' c0 c1 t4 p4 h4 r4 g1' g1'' g3 g2' g2'' g4'
    t3 k3 p3 i3 s3 c d e' f' g' show ?thesis
    by blast
qed

text \<open>The code does not tell an admission rejection from every error of the work
  function. A work function may throw a value that carries the code
  \<^verbatim>\<open>LLM_BULKHEAD_REJECTED\<close>: an object that is no \<^verbatim>\<open>LLMBulkheadRejectedError\<close>, or an
  \<^verbatim>\<open>LLMBulkheadRejectedError\<close> itself (one of an inner bulkhead, say). It is passed on
  unchanged, so the caller reads the same code as after an admission rejection, although
  the work function was invoked.\<close>

theorem run_releases_then_settles_counterexample:
  "fn_calls ex_prerejected = [] \<and>
   tasks ex_prerejected ! 0
     = RunAwaiting (ex_request None) 0 7 no_options (Returned (NotOk budget_limit)) \<and>
   exec (ex_env 200 False) ex_prerejected [Resume 0]
     = ex_prerejected\<lparr> promises := [Rejected (Rejection (LLMBulkheadRejectedError budget_limit))],
                        tasks := [] \<rparr> \<and>
   thrown_code ex_code_of (Rejection (LLMBulkheadRejectedError budget_limit))
     = Some ''LLM_BULKHEAD_REJECTED'' \<and>
   fn_calls ex_leading = [(7, None)] \<and>
   tasks ex_leading ! 0 = RunWorking 0 0 \<and>
   promises (exec (ex_env 200 True) ex_leading
       [FnSettles 0 (Inl (OtherError ''look-alike'')), Resume 0])
     = [Rejected (OtherError ''look-alike'')] \<and>
   thrown_code ex_code_of (OtherError ''look-alike'') = Some ''LLM_BULKHEAD_REJECTED'' \<and>
   OtherError ''look-alike'' \<noteq> Rejection (LLMBulkheadRejectedError budget_limit) \<and>
   promises (exec (ex_env 200 True) ex_leading
       [FnSettles 0 (Inl (Rejection (LLMBulkheadRejectedError budget_limit))), Resume 0])
     = [Rejected (Rejection (LLMBulkheadRejectedError budget_limit))]"
  by (simp add: ex_prerejected_def ex_admitted_def ex_leading_def ex_defs op_defs
      thrown_code_def ex_code_of_def LLMBulkheadRejectedError_def)

section \<open>The registry invariant\<close>

lemma set_remove_at: "set (remove_at i xs) \<subseteq> set xs"
  unfolding remove_at_def
  using set_take_subset[of i xs] set_drop_subset[of "Suc i" xs] by auto

lemma in_remove_at:
  assumes "x \<in> set xs" and "i < length xs" and "x \<noteq> xs ! i"
  shows "x \<in> set (remove_at i xs)"
proof -
  have "xs = take i xs @ xs ! i # drop (Suc i) xs"
    using assms(2) by (rule id_take_nth_drop)
  then have "set xs = set (take i xs) \<union> set (xs ! i # drop (Suc i) xs)"
    by (metis set_append)
  then show ?thesis
    using assms(1,3) by (auto simp: remove_at_def)
qed

lemma regI:
  assumes "distinct (map fst dm)" and "set dm \<subseteq> set cl"
    and "\<And>t p. t \<in> set ts \<Longrightarrow> task_promise t = Some p \<Longrightarrow> p < length pr"
    and "\<And>k p. (k, p) \<in> set cl \<Longrightarrow> p < length pr"
    and "\<And>k p. (k, p) \<in> set cl \<Longrightarrow> pr ! p = Pending \<Longrightarrow> Some p \<in> task_promise ` set ts"
  shows "reg dm cl pr ts"
  unfolding reg_def using assms by auto

lemma reg_distinct: "reg dm cl pr ts \<Longrightarrow> distinct (map fst dm)"
  by (simp add: reg_def)

lemma reg_subset: "reg dm cl pr ts \<Longrightarrow> set dm \<subseteq> set cl"
  by (simp add: reg_def)

lemma reg_task: "reg dm cl pr ts \<Longrightarrow> t \<in> set ts \<Longrightarrow> task_promise t = Some p \<Longrightarrow> p < length pr"
  by (auto simp: reg_def)

lemma reg_exists: "reg dm cl pr ts \<Longrightarrow> (k, p) \<in> set cl \<Longrightarrow> p < length pr"
  by (auto simp: reg_def)

lemma reg_owner:
  "reg dm cl pr ts \<Longrightarrow> (k, p) \<in> set cl \<Longrightarrow> pr ! p = Pending \<Longrightarrow>
   Some p \<in> task_promise ` set ts"
  by (auto simp: reg_def)

lemma promise_kept:
  assumes "Some q \<in> task_promise ` set ts" and "i < length ts"
    and "task_promise (ts ! i) \<noteq> Some q"
  shows "Some q \<in> task_promise ` set (remove_at i ts)"
proof -
  from assms(1) obtain t where t: "t \<in> set ts" "task_promise t = Some q"
    by (metis (no_types) imageE)
  then have "t \<noteq> ts ! i" using assms(3) by auto
  then have "t \<in> set (remove_at i ts)" using t(1) assms(2) by (simp add: in_remove_at)
  then show ?thesis using t(2) by (metis (no_types) imageI)
qed

lemma reg_task_add:
  assumes "reg dm cl pr ts" and "task_promise t = None"
  shows "reg dm cl pr (ts @ [t])"
proof (rule regI)
  show "distinct (map fst dm)" by (rule reg_distinct[OF assms(1)])
  show "set dm \<subseteq> set cl" by (rule reg_subset[OF assms(1)])
  show "p < length pr" if "u \<in> set (ts @ [t])" and "task_promise u = Some p" for u p
    using that assms(2) reg_task[OF assms(1)] by auto
  show "p < length pr" if "(k, p) \<in> set cl" for k p
    using that by (rule reg_exists[OF assms(1)])
  show "Some p \<in> task_promise ` set (ts @ [t])" if "(k, p) \<in> set cl" and "pr ! p = Pending" for k p
    using reg_owner[OF assms(1) that] by auto
qed

lemma reg_task_drop:
  assumes "reg dm cl pr ts" and "i < length ts" and "task_promise (ts ! i) = None"
  shows "reg dm cl pr (remove_at i ts)"
proof (rule regI)
  show "distinct (map fst dm)" by (rule reg_distinct[OF assms(1)])
  show "set dm \<subseteq> set cl" by (rule reg_subset[OF assms(1)])
  show "p < length pr" if "u \<in> set (remove_at i ts)" and "task_promise u = Some p" for u p
    using that set_remove_at[of i ts] reg_task[OF assms(1)] by blast
  show "p < length pr" if "(k, p) \<in> set cl" for k p
    using that by (rule reg_exists[OF assms(1)])
  show "Some p \<in> task_promise ` set (remove_at i ts)"
    if "(k, p) \<in> set cl" and "pr ! p = Pending" for k p
    using reg_owner[OF assms(1) that] assms(2,3) by (intro promise_kept) simp_all
qed

lemma reg_task_replace:
  assumes "reg dm cl pr ts" and "i < length ts" and "task_promise t = task_promise (ts ! i)"
  shows "reg dm cl pr (ts[i := t])"
proof -
  have "map task_promise (ts[i := t]) = map task_promise ts"
    using assms(2,3) by (simp add: map_update list_update_same_conv)
  then have e: "task_promise ` set (ts[i := t]) = task_promise ` set ts"
    by (metis set_map)
  show ?thesis
  proof (rule regI)
    show "distinct (map fst dm)" by (rule reg_distinct[OF assms(1)])
    show "set dm \<subseteq> set cl" by (rule reg_subset[OF assms(1)])
    show "p < length pr" if "u \<in> set (ts[i := t])" and "task_promise u = Some p" for u p
    proof -
      have "Some p \<in> task_promise ` set ts"
        using that e by (metis (no_types) imageI)
      then obtain v where "v \<in> set ts" "task_promise v = Some p"
        by (metis (no_types) imageE)
      then show ?thesis by (rule reg_task[OF assms(1)])
    qed
    show "p < length pr" if "(k, p) \<in> set cl" for k p
      using that by (rule reg_exists[OF assms(1)])
    show "Some p \<in> task_promise ` set (ts[i := t])"
      if "(k, p) \<in> set cl" and "pr ! p = Pending" for k p
      using reg_owner[OF assms(1) that] e by simp
  qed
qed

lemma reg_run_plain:
  assumes "reg dm cl pr ts" and "task_promise t = Some (length pr)"
  shows "reg dm cl (pr @ [Pending]) (ts @ [t])"
proof (rule regI)
  show "distinct (map fst dm)" by (rule reg_distinct[OF assms(1)])
  show "set dm \<subseteq> set cl" by (rule reg_subset[OF assms(1)])
  show "p < length (pr @ [Pending])" if "u \<in> set (ts @ [t])" and "task_promise u = Some p" for u p
    using that assms(2) reg_task[OF assms(1)] by (auto simp: less_Suc_eq)
  show "p < length (pr @ [Pending])" if "(k, p) \<in> set cl" for k p
    using reg_exists[OF assms(1) that] by simp
  show "Some p \<in> task_promise ` set (ts @ [t])"
    if "(k, p) \<in> set cl" and "(pr @ [Pending]) ! p = Pending" for k p
  proof -
    have "p < length pr" by (rule reg_exists[OF assms(1) that(1)])
    then have "pr ! p = Pending" using that(2) by (simp add: nth_append)
    then show ?thesis using reg_owner[OF assms(1) that(1)] by auto
  qed
qed

lemma reg_run_leader:
  assumes "reg dm cl pr ts" and "k \<notin> fst ` set dm" and "task_promise t = Some (length pr)"
  shows "reg (dm @ [(k, length pr)]) (cl @ [(k, length pr)]) (pr @ [Pending]) (ts @ [t])"
proof (rule regI)
  show "distinct (map fst (dm @ [(k, length pr)]))"
    using reg_distinct[OF assms(1)] assms(2) by simp
  show "set (dm @ [(k, length pr)]) \<subseteq> set (cl @ [(k, length pr)])"
    using reg_subset[OF assms(1)] by auto
  show "p < length (pr @ [Pending])" if "u \<in> set (ts @ [t])" and "task_promise u = Some p" for u p
    using that assms(3) reg_task[OF assms(1)] by (auto simp: less_Suc_eq)
  show "p < length (pr @ [Pending])" if "(j, p) \<in> set (cl @ [(k, length pr)])" for j p
    using that reg_exists[OF assms(1)] by (auto simp: less_Suc_eq)
  show "Some p \<in> task_promise ` set (ts @ [t])"
    if "(j, p) \<in> set (cl @ [(k, length pr)])" and "(pr @ [Pending]) ! p = Pending" for j p
  proof (cases "(j, p) \<in> set cl")
    case True
    have "p < length pr" by (rule reg_exists[OF assms(1) True])
    then have "pr ! p = Pending" using that(2) by (simp add: nth_append)
    then show ?thesis using reg_owner[OF assms(1) True] by auto
  next
    case False
    then have "p = length pr" using that(1) by simp
    then show ?thesis using assms(3) by (metis (no_types) imageI in_set_conv_decomp)
  qed
qed

lemma reg_settle:
  assumes "reg dm cl pr ts" and "i < length ts" and "task_promise (ts ! i) = Some p"
    and "out \<noteq> Pending"
  shows "reg dm cl (if p < length pr \<and> pr ! p = Pending then pr[p := out] else pr) (remove_at i ts)"
proof -
  define pr' where "pr' = (if p < length pr \<and> pr ! p = Pending then pr[p := out] else pr)"
  have p: "p < length pr"
    using reg_task[OF assms(1) _ assms(3)] assms(2) by simp
  have np: "pr' ! p \<noteq> Pending"
    using p assms(4) by (simp add: pr'_def)
  have len: "length pr' = length pr" by (simp add: pr'_def)
  have other: "pr' ! q = pr ! q" if "q \<noteq> p" for q
    using that by (simp add: pr'_def)
  have "reg dm cl pr' (remove_at i ts)"
  proof (rule regI)
    show "distinct (map fst dm)" by (rule reg_distinct[OF assms(1)])
    show "set dm \<subseteq> set cl" by (rule reg_subset[OF assms(1)])
    show "q < length pr'" if "u \<in> set (remove_at i ts)" and "task_promise u = Some q" for u q
      using that set_remove_at[of i ts] reg_task[OF assms(1)] len by auto
    show "q < length pr'" if "(k, q) \<in> set cl" for k q
      using reg_exists[OF assms(1) that] len by simp
    show "Some q \<in> task_promise ` set (remove_at i ts)"
      if "(k, q) \<in> set cl" and "pr' ! q = Pending" for k q
    proof -
      have n: "q \<noteq> p" using that(2) np by auto
      then have "pr ! q = Pending" using that(2) other by simp
      then have "Some q \<in> task_promise ` set ts" by (rule reg_owner[OF assms(1) that(1)])
      then show ?thesis using assms(2,3) n by (intro promise_kept) simp_all
    qed
  qed
  then show ?thesis by (simp add: pr'_def)
qed

lemma reg_reaction:
  assumes "reg dm cl pr ts" and "j < length cl" and "cl ! j = (k, p)"
  shows "reg (if map_of dm k = Some p then AList.delete k dm else dm) (remove_at j cl) pr ts"
proof -
  define dm' where "dm' = (if map_of dm k = Some p then AList.delete k dm else dm)"
  have d: "distinct (map fst dm)" by (rule reg_distinct[OF assms(1)])
  have s: "set dm \<subseteq> set cl" by (rule reg_subset[OF assms(1)])
  have "reg dm' (remove_at j cl) pr ts"
  proof (rule regI)
    show "distinct (map fst dm')"
      using d by (simp add: dm'_def distinct_delete)
    show "set dm' \<subseteq> set (remove_at j cl)"
    proof
      fix x assume x: "x \<in> set dm'"
      have m: "x \<in> set dm" using x by (auto simp: dm'_def AList.delete_eq split: if_splits)
      have "x \<noteq> (k, p)"
      proof
        assume e: "x = (k, p)"
        then have "map_of dm k = Some p"
          using m d by simp
        then have "x \<in> set (AList.delete k dm)" using x by (simp add: dm'_def)
        then show False using e by (simp add: AList.delete_eq)
      qed
      then show "x \<in> set (remove_at j cl)"
        using s m assms(2,3) by (intro in_remove_at) auto
    qed
    show "q < length pr" if "u \<in> set ts" and "task_promise u = Some q" for u q
      using that by (rule reg_task[OF assms(1)])
    show "q < length pr" if "(l, q) \<in> set (remove_at j cl)" for l q
      using that set_remove_at[of j cl] reg_exists[OF assms(1)] by blast
    show "Some q \<in> task_promise ` set ts"
      if "(l, q) \<in> set (remove_at j cl)" and "pr ! q = Pending" for l q
      using that set_remove_at[of j cl] reg_owner[OF assms(1)] by blast
  qed
  then show ?thesis by (simp add: dm'_def)
qed

text \<open>What the parts of a job do to the registry, the reactions, the promises and the
  suspended calls.\<close>

lemma acquire_enter_registry [simp]:
  "dedupMap (snd (acquire_enter env st rq ao)) = dedupMap st"
  "cleanups (snd (acquire_enter env st rq ao)) = cleanups st"
  "promises (snd (acquire_enter env st rq ao)) = promises st"
  "tasks (snd (acquire_enter env st rq ao)) = tasks st"
  using acquire_enter_cases[of env st rq ao] by auto

lemma acquire_resume_registry [simp]:
  "dedupMap (snd (acquire_resume env st rq r)) = dedupMap st"
  "cleanups (snd (acquire_resume env st rq r)) = cleanups st"
  "promises (snd (acquire_resume env st rq r)) = promises st"
  "tasks (snd (acquire_resume env st rq r)) = tasks st"
  by (cases r;
      simp add: acquire_resume_def tryReserveTokens_def wrapToken_def Let_def
        split: option.splits)+

lemma release_registry [simp]:
  "dedupMap (snd (release st t)) = dedupMap st"
  "cleanups (snd (release st t)) = cleanups st"
  "promises (snd (release st t)) = promises st"
  "tasks (snd (release st t)) = tasks st"
  by (simp_all add: release_def releaseTokens_def Let_def case_prod_beta)

lemma snd_work_settles: "snd (work_settles st tok out) = snd (release st tok)"
  by (simp add: work_settles_def split: prod.splits option.splits)

lemma work_settles_registry [simp]:
  "dedupMap (snd (work_settles st tok out)) = dedupMap st"
  "cleanups (snd (work_settles st tok out)) = cleanups st"
  "promises (snd (work_settles st tok out)) = promises st"
  "tasks (snd (work_settles st tok out)) = tasks st"
  by (simp_all add: snd_work_settles)

lemma settle_registry [simp]:
  "dedupMap (settle st p out) = dedupMap st"
  "cleanups (settle st p out) = cleanups st"
  "tasks (settle st p out) = tasks st"
  "promises (settle st p out)
     = (if p < length (promises st) \<and> promises st ! p = Pending
        then (promises st)[p := out] else promises st)"
  by (simp_all add: settle_def)

lemma registry_run_continue:
  assumes "registry_inv st" and "i < length (tasks st)"
    and "task_promise (tasks st ! i) = Some p"
  shows "registry_inv (run_continue st i p fn ao res)"
proof (cases res)
  case (Ok tok)
  then show ?thesis
    using reg_task_replace[OF assms(1)[unfolded registry_inv_def] assms(2),
        of "RunWorking p tok"] assms(3)
    by (simp add: run_continue_def run_resume_def registry_inv_def)
next
  case (NotOk rsn)
  then show ?thesis
    using reg_settle[OF assms(1)[unfolded registry_inv_def] assms(2,3),
        of "Rejected (Rejection (LLMBulkheadRejectedError rsn))"]
    by (simp add: run_continue_def run_resume_def registry_inv_def)next
  case (Threw x)
  then show ?thesis
    using reg_settle[OF assms(1)[unfolded registry_inv_def] assms(2,3), of "Rejected x"]
    by (simp add: run_continue_def run_resume_def registry_inv_def)
qed

lemma registry_run_enter:
  assumes "registry_inv st"
  shows "registry_inv (step env st (CallRun rq fn ao))"
proof (cases "env_deduplication env \<and> dedupKey env rq \<noteq> []")
  case False
  show ?thesis
    using reg_run_plain[OF assms[unfolded registry_inv_def],
        of "RunAwaiting rq (length (promises st)) fn ao
              (fst (acquire_enter env (st\<lparr> promises := promises st @ [Pending] \<rparr>) rq ao))"]
    by (simp add: run_enter_plain[OF False] registry_inv_def)
next
  case True
  show ?thesis
  proof (cases "map_of (dedupMap st) (dedupKey env rq)")
    case (Some q)
    then show ?thesis
      using assms True by (simp add: run_enter_joins registry_inv_def)
  next
    case None
    then have "dedupKey env rq \<notin> fst ` set (dedupMap st)"
      by (simp add: map_of_eq_None_iff)
    then show ?thesis
      using reg_run_leader[OF assms[unfolded registry_inv_def],
        of "dedupKey env rq" "RunAwaiting rq (length (promises st)) fn ao
              (fst (acquire_enter env
                 (st\<lparr> promises := promises st @ [Pending],
                      dedupMap := dedupMap st @ [(dedupKey env rq, length (promises st))],
                      cleanups := cleanups st @ [(dedupKey env rq, length (promises st))] \<rparr>)
                 rq ao))"] True None
      by (simp add: run_enter_leads registry_inv_def)
  qed
qed

lemma registry_step:
  assumes "registry_inv st"
  shows "registry_inv (step env st ev)"
proof (cases ev)
  case (CallAcquire rq ao)
  obtain e s1 where e: "acquire_enter env st rq ao = (e, s1)"
    by (cases "acquire_enter env st rq ao")
  have f: "dedupMap s1 = dedupMap st" "cleanups s1 = cleanups st" "promises s1 = promises st"
    "tasks s1 = tasks st"
    using acquire_enter_registry[of env st rq ao] e by simp_all
  show ?thesis
    using assms reg_task_add[OF assms[unfolded registry_inv_def], of "AcquireAtGate rq"]
    by (cases e) (simp_all add: CallAcquire e f registry_inv_def)
next
  case (CallRun rq fn ao)
  then show ?thesis using registry_run_enter[OF assms] by simp
next
  case (CallRelease t)
  then show ?thesis using assms by (simp add: registry_inv_def)
next
  case (GateSettles i a)
  show ?thesis
  proof (cases "i < length (tasks st)")
    case False
    then show ?thesis using GateSettles assms by simp
  next
    case True
    obtain r g where g: "gate_settle (bulkhead st) a = (r, g)"
      by (cases "gate_settle (bulkhead st) a")
    show ?thesis
    proof (cases "tasks st ! i")
      case (AcquireAtGate rq)
      obtain res s1 where r: "acquire_resume env (st\<lparr> bulkhead := g \<rparr>) rq r = (res, s1)"
        by (cases "acquire_resume env (st\<lparr> bulkhead := g \<rparr>) rq r")
      have f: "dedupMap s1 = dedupMap st" "cleanups s1 = cleanups st"
        "promises s1 = promises st" "tasks s1 = tasks st"
        using acquire_resume_registry[of env "st\<lparr> bulkhead := g \<rparr>" rq r] r by simp_all
      show ?thesis
        using reg_task_drop[OF assms[unfolded registry_inv_def] True] AcquireAtGate
        by (simp add: GateSettles True g r f registry_inv_def)
    next
      case (RunAwaiting rq p fn ao e)
      obtain res s1 where r: "acquire_resume env (st\<lparr> bulkhead := g \<rparr>) rq r = (res, s1)"
        by (cases "acquire_resume env (st\<lparr> bulkhead := g \<rparr>) rq r")
      have f: "dedupMap s1 = dedupMap st" "cleanups s1 = cleanups st"
        "promises s1 = promises st" "tasks s1 = tasks st"
        using acquire_resume_registry[of env "st\<lparr> bulkhead := g \<rparr>" rq r] r by simp_all
      have "registry_inv s1" using assms by (simp add: registry_inv_def f)
      then have "registry_inv (run_continue s1 i p fn ao res)"
        using True RunAwaiting by (intro registry_run_continue) (simp_all add: f)
      then show ?thesis
        using assms by (cases e) (simp_all add: GateSettles True RunAwaiting g r)
    next
      case (RunWorking p tok)
      then show ?thesis using GateSettles True assms by simp
    next
      case (RunWorkSettled p w)
      then show ?thesis using GateSettles True assms by simp
    qed
  qed
next
  case (Resume i)
  show ?thesis
  proof (cases "i < length (tasks st)")
    case False
    then show ?thesis using Resume assms by simp
  next
    case True
    show ?thesis
    proof (cases "tasks st ! i")
      case (AcquireAtGate rq)
      then show ?thesis using Resume True assms by simp
    next
      case (RunAwaiting rq p fn ao e)
      have "registry_inv (run_continue st i p fn ao res)" for res
        using True RunAwaiting by (intro registry_run_continue[OF assms]) simp_all
      then show ?thesis
        using assms by (cases e) (simp_all add: Resume True RunAwaiting)
    next
      case (RunWorking p tok)
      then show ?thesis using Resume True assms by simp
    next
      case (RunWorkSettled p w)
      have "(case w of Inl e \<Rightarrow> Rejected e | Inr v \<Rightarrow> Fulfilled v) \<noteq> (Pending :: ('a, 'b) promise)"
        by (cases w) simp_all
      then show ?thesis
        using reg_settle[OF assms[unfolded registry_inv_def] True, of p
            "case w of Inl e \<Rightarrow> Rejected e | Inr v \<Rightarrow> Fulfilled v"] RunWorkSettled
        by (simp add: Resume True run_deliver_def registry_inv_def)
    qed
  qed
next
  case (FnSettles i out)
  show ?thesis
  proof (cases "i < length (tasks st)")
    case False
    then show ?thesis using FnSettles assms by simp
  next
    case True
    show ?thesis
    proof (cases "tasks st ! i")
      case (RunWorking p tok)
      obtain w s1 where w: "work_settles st tok out = (w, s1)"
        by (cases "work_settles st tok out")
      have f: "dedupMap s1 = dedupMap st" "cleanups s1 = cleanups st"
        "promises s1 = promises st" "tasks s1 = tasks st"
        using work_settles_registry[of st tok out] w by simp_all
      show ?thesis
        using reg_task_replace[OF assms[unfolded registry_inv_def] True, of "RunWorkSettled p w"]
          RunWorking
        by (simp add: FnSettles True w f registry_inv_def)
    qed (use FnSettles True assms in simp_all)
  qed
next
  case (Reaction j)
  show ?thesis
  proof (cases "j < length (cleanups st)")
    case False
    then show ?thesis using Reaction assms by simp
  next
    case True
    obtain k p where c: "cleanups st ! j = (k, p)"
      by (cases "cleanups st ! j")
    show ?thesis
      using reg_reaction[OF assms[unfolded registry_inv_def] True c] assms
      by (auto simp: Reaction True c cleanup_def registry_inv_def split: if_splits)
  qed
qed

lemma registry_exec: "registry_inv st \<Longrightarrow> registry_inv (exec env st evs)"
  by (rule exec_preserves[where P = registry_inv]) (rule registry_step)

lemma registry_created:
  "createLLMBulkhead dflt js opts = Inr (env, st0) \<Longrightarrow> registry_inv st0"
  by (auto simp: createLLMBulkhead_def registry_inv_def reg_def split: if_splits)

lemma drain_empties:
  assumes "registry_inv st" and "tasks st = []"
  shows "dedupMap (drain env st) = [] \<and> cleanups (drain env st) = []"
  using assms
proof (induction "length (cleanups st)" arbitrary: st)
  case 0
  then have "cleanups st = []" by simp
  moreover have "set (dedupMap st) \<subseteq> set (cleanups st)"
    using "0.prems"(1) by (simp add: registry_inv_def reg_subset)
  ultimately show ?case by (simp add: drain_def exec_def)
next
  case (Suc n)
  from Suc.hyps(2) obtain c cl where c: "cleanups st = c # cl"
    by (cases "cleanups st") simp_all
  obtain k p where kp: "c = (k, p)" by (cases c)
  have r: "reg (dedupMap st) (cleanups st) (promises st) (tasks st)"
    using Suc.prems(1) by (simp add: registry_inv_def)
  have m: "(k, p) \<in> set (cleanups st)" by (simp add: c kp)
  have p: "p < length (promises st)" by (rule reg_exists[OF r m])
  have np: "promises st ! p \<noteq> Pending"
  proof
    assume "promises st ! p = Pending"
    then have "Some p \<in> task_promise ` set (tasks st)" by (rule reg_owner[OF r m])
    then show False using Suc.prems(2) by simp
  qed
  define st' where "st' = step env st (Reaction 0)"
  have e: "st' = (cleanup st k p)\<lparr> cleanups := cl \<rparr>"
    using p np by (simp add: st'_def c kp remove_at_def)
  have i: "registry_inv st'" unfolding st'_def by (rule registry_step[OF Suc.prems(1)])
  have t: "tasks st' = []" using Suc.prems(2) by (simp add: e cleanup_def)
  have l: "n = length (cleanups st')" using Suc.hyps(2) by (simp add: e c)
  have "replicate (length (cleanups st)) (Reaction 0 :: ('a, 'b) Event)
          = Reaction 0 # replicate n (Reaction 0)"
    using Suc.hyps(2)[symmetric] by simp
  then have "drain env st = exec env st' (replicate n (Reaction 0))"
    unfolding drain_def st'_def by (simp only: exec_Cons)
  also have "\<dots> = drain env st'" by (simp add: drain_def l)
  finally show ?case using Suc.hyps(1)[OF l i t] by simp
qed

lemma ex_settled_fields:
  "dedupMap ex_settled = [(''[{\"role\":\"user\",\"content\":\"hello\"}]'', 0)]"
  "cleanups ex_settled = [(''[{\"role\":\"user\",\"content\":\"hello\"}]'', 0)]"
  "tasks ex_settled = []"
  "promises ex_settled = [Fulfilled 5]"
  "inFlightTokens ex_settled = 0"
  "slots (bulkhead ex_settled) = []"
  by (simp_all add: ex_settled_def ex_defs op_defs)

text \<open>
  C7. The cleanup of a leader (key \<open>k\<close>, promise \<open>p\<close>) removes the entry of \<open>k\<close> when
  the registry still holds \<open>p\<close> under \<open>k\<close>, leaves every other key alone, and changes
  nothing when the registry holds no entry or another promise under \<open>k\<close>; after the
  removal a \<^verbatim>\<open>run\<close> call with that key is not a follower. A leader registers one
  cleanup reaction with its entry; the reaction runs only once its promise has
  settled, and running it takes it off the pending reactions, so it runs at most
  once. In every reachable state of a created bulkhead the keys of the registry are
  distinct and every entry has its cleanup reaction pending; when no call is
  suspended any more, running the pending reactions leaves the registry empty
  (\<^verbatim>\<open>stats().deduplication.active\<close> is 0) and no reaction pending. The cleanup has no
  exceptional result.
\<close>

theorem registry_cleanup:
  assumes "createLLMBulkhead dflt js opts = Inr (env, st0)"
  shows "(map_of (dedupMap st) k \<noteq> Some p \<longrightarrow> cleanup st k p = st) \<and>
         (map_of (dedupMap st) k = Some p \<longrightarrow>
            dedupMap (cleanup st k p) = AList.delete k (dedupMap st) \<and>
            map_of (dedupMap (cleanup st k p)) k = None \<and>
            (\<forall>k'. k' \<noteq> k \<longrightarrow>
               map_of (dedupMap (cleanup st k p)) k' = map_of (dedupMap st) k') \<and>
            (dedupKey env rq = k \<longrightarrow> \<not> joins env (cleanup st k p) rq)) \<and>
         (env_deduplication env \<and> dedupKey env rq \<noteq> [] \<and> \<not> joins env st rq \<longrightarrow>
            cleanups (snd (run_enter env st rq ao))
              = cleanups st @ [(dedupKey env rq, length (promises st))] \<and>
            dedupMap (snd (run_enter env st rq ao))
              = dedupMap st @ [(dedupKey env rq, length (promises st))]) \<and>
         (j < length (cleanups st) \<and> cleanups st ! j = (k, p) \<longrightarrow>
            (p < length (promises st) \<and> promises st ! p \<noteq> Pending \<longrightarrow>
               step env st (Reaction j)
                 = (cleanup st k p)\<lparr> cleanups := remove_at j (cleanups st) \<rparr>) \<and>
            (\<not> (p < length (promises st) \<and> promises st ! p \<noteq> Pending) \<longrightarrow>
               step env st (Reaction j) = st)) \<and>
         distinct (map fst (dedupMap (exec env st0 evs))) \<and>
         set (dedupMap (exec env st0 evs)) \<subseteq> set (cleanups (exec env st0 evs)) \<and>
         (tasks (exec env st0 evs) = [] \<longrightarrow>
            dedupMap (drain env (exec env st0 evs)) = [] \<and>
            cleanups (drain env (exec env st0 evs)) = [] \<and>
            map_option active (stats_deduplication (stats env (drain env (exec env st0 evs))))
              = (if env_deduplication env then Some 0 else None))"
proof -
  have a: "map_of (dedupMap st) k \<noteq> Some p \<longrightarrow> cleanup st k p = st"
    by (simp add: cleanup_def)
  have b: "dedupMap (cleanup st k p) = AList.delete k (dedupMap st) \<and>
            map_of (dedupMap (cleanup st k p)) k = None \<and>
            (\<forall>k'. k' \<noteq> k \<longrightarrow>
               map_of (dedupMap (cleanup st k p)) k' = map_of (dedupMap st) k') \<and>
            (dedupKey env rq = k \<longrightarrow> \<not> joins env (cleanup st k p) rq)"
    if "map_of (dedupMap st) k = Some p"
    using that by (simp add: cleanup_def delete_conv joins_def)
  have c: "cleanups (snd (run_enter env st rq ao))
              = cleanups st @ [(dedupKey env rq, length (promises st))] \<and>
            dedupMap (snd (run_enter env st rq ao))
              = dedupMap st @ [(dedupKey env rq, length (promises st))]"
    if "env_deduplication env" and "dedupKey env rq \<noteq> []" and "\<not> joins env st rq"
  proof -
    have "map_of (dedupMap st) (dedupKey env rq) = None"
      using that by (simp add: joins_def)
    then show ?thesis
      using that by (simp add: run_enter_leads)
  qed
  have d: "(p < length (promises st) \<and> promises st ! p \<noteq> Pending \<longrightarrow>
               step env st (Reaction j)
                 = (cleanup st k p)\<lparr> cleanups := remove_at j (cleanups st) \<rparr>) \<and>
            (\<not> (p < length (promises st) \<and> promises st ! p \<noteq> Pending) \<longrightarrow>
               step env st (Reaction j) = st)"
    if "j < length (cleanups st)" and "cleanups st ! j = (k, p)"
    using that by simp
  have i: "registry_inv (exec env st0 evs)"
    by (rule registry_exec[OF registry_created[OF assms]])
  then have r: "reg (dedupMap (exec env st0 evs)) (cleanups (exec env st0 evs))
                  (promises (exec env st0 evs)) (tasks (exec env st0 evs))"
    by (simp add: registry_inv_def)
  have e: "distinct (map fst (dedupMap (exec env st0 evs)))"
    and f: "set (dedupMap (exec env st0 evs)) \<subseteq> set (cleanups (exec env st0 evs))"
    using r by (rule reg_distinct, rule reg_subset)
  have g: "dedupMap (drain env (exec env st0 evs)) = [] \<and>
            cleanups (drain env (exec env st0 evs)) = [] \<and>
            map_option active (stats_deduplication (stats env (drain env (exec env st0 evs))))
              = (if env_deduplication env then Some 0 else None)"
    if "tasks (exec env st0 evs) = []"
    using drain_empties[OF i that, of env] by (simp add: stats_def)
  from a b c d e f g show ?thesis by blast
qed

theorem registry_cleanup_witness:
  "createLLMBulkhead (\<lambda>m c. naiveTokenEstimator) ex_stringify (ex_opts 200 True)
     = Inr (ex_env 200 True, ex_init 200 True) \<and>
   map_of (dedupMap ex_settled) ''[{\"role\":\"user\",\"content\":\"hello\"}]'' = Some 0 \<and>
   dedupMap (cleanup ex_settled ''[{\"role\":\"user\",\"content\":\"hello\"}]'' 0) = [] \<and>
   \<not> joins (ex_env 200 True) (cleanup ex_settled ''[{\"role\":\"user\",\"content\":\"hello\"}]'' 0)
       (ex_request None) \<and>
   cleanup ex_settled ''[{\"role\":\"user\",\"content\":\"hello\"}]'' 1 = ex_settled \<and>
   \<not> joins (ex_env 200 True) (ex_init 200 True) (ex_request None) \<and>
   cleanups (snd (run_enter (ex_env 200 True) (ex_init 200 True) (ex_request None) no_options))
     = [(''[{\"role\":\"user\",\"content\":\"hello\"}]'', 0)] \<and>
   cleanups ex_settled ! 0 = (''[{\"role\":\"user\",\"content\":\"hello\"}]'', 0) \<and>
   promises ex_settled ! 0 = Fulfilled 5 \<and>
   step (ex_env 200 True) ex_settled (Reaction 0)
     = (cleanup ex_settled ''[{\"role\":\"user\",\"content\":\"hello\"}]'' 0)
         \<lparr> cleanups := remove_at 0 (cleanups ex_settled) \<rparr> \<and>
   cleanups ex_leading ! 0 = (''[{\"role\":\"user\",\"content\":\"hello\"}]'', 0) \<and>
   promises ex_leading ! 0 = Pending \<and>
   step (ex_env 200 True) ex_leading (Reaction 0) = ex_leading \<and>
   tasks ex_settled = [] \<and>
   map_option active (stats_deduplication (stats (ex_env 200 True) ex_settled)) = Some 1 \<and>
   dedupMap (drain (ex_env 200 True) ex_settled) = [] \<and>
   map_option active (stats_deduplication (stats (ex_env 200 True) (drain (ex_env 200 True) ex_settled)))
     = Some 0"
proof -
  let ?K = "''[{\"role\":\"user\",\"content\":\"hello\"}]''"
  have c: "createLLMBulkhead (\<lambda>m c. naiveTokenEstimator) ex_stringify (ex_opts 200 True)
             = Inr (ex_env 200 True, ex_init 200 True)"
    by (simp add: ex_defs)
  have k: "dedupKey (ex_env 200 True) (ex_request None) = ?K"
    and d: "env_deduplication (ex_env 200 True)"
    by (simp_all add: dedupKey_def ex_defs)
  have m: "map_of (dedupMap ex_settled) ?K = Some 0"
    and m': "map_of (dedupMap ex_settled) ?K \<noteq> Some 1"
    and cs: "cleanups ex_settled ! 0 = (?K, 0)" and ps: "promises ex_settled ! 0 = Fulfilled 5"
    and ls: "0 < length (cleanups ex_settled)" "0 < length (promises ex_settled)"
    and ts: "tasks ex_settled = []"
    by (simp_all add: ex_settled_fields)
  have cl: "cleanups ex_leading ! 0 = (?K, 0)" and pl: "promises ex_leading ! 0 = Pending"
    and ll: "0 < length (cleanups ex_leading)"
    by (simp_all add: ex_leading_fields)
  have j0: "\<not> joins (ex_env 200 True) (ex_init 200 True) (ex_request None)"
    and p0: "promises (ex_init 200 True) = []" and c0: "cleanups (ex_init 200 True) = []"
    by (simp_all add: joins_def ex_defs)
  note w1 = registry_cleanup [OF c, where st = ex_settled and k = ?K and p = 0 and j = 0
      and rq = "ex_request None" and ao = no_options
      and evs = "[CallRun (ex_request None) 7 no_options, GateSettles 0 Grant,
                  FnSettles 0 (Inr 5), Resume 0]", folded ex_settled_def]
  note w2 = registry_cleanup [OF c, where st = ex_settled and k = ?K and p = 1 and j = 0
      and rq = "ex_request None" and ao = no_options and evs = "[]"]
  note w3 = registry_cleanup [OF c, where st = "ex_init 200 True" and k = ?K and p = 0 and j = 0
      and rq = "ex_request None" and ao = no_options and evs = "[]"]
  note w4 = registry_cleanup [OF c, where st = ex_leading and k = ?K and p = 0 and j = 0
      and rq = "ex_request None" and ao = no_options and evs = "[]"]
  have a1: "dedupMap (cleanup ex_settled ?K 0) = AList.delete ?K (dedupMap ex_settled)"
    and a2: "\<not> joins (ex_env 200 True) (cleanup ex_settled ?K 0) (ex_request None)"
    using w1 m k by blast+
  have a3: "step (ex_env 200 True) ex_settled (Reaction 0)
     = (cleanup ex_settled ?K 0)\<lparr> cleanups := remove_at 0 (cleanups ex_settled) \<rparr>"
    using w1 ls cs ps by simp
  have a4: "dedupMap (drain (ex_env 200 True) ex_settled) = []"
    and a5: "map_option active (stats_deduplication (stats (ex_env 200 True) (drain (ex_env 200 True) ex_settled)))
     = (if env_deduplication (ex_env 200 True) then Some 0 else None)"
    using w1 ts by blast+
  have b1: "cleanup ex_settled ?K 1 = ex_settled"
    using w2 m' by blast
  have b2: "cleanups (snd (run_enter (ex_env 200 True) (ex_init 200 True) (ex_request None) no_options))
     = cleanups (ex_init 200 True) @ [(dedupKey (ex_env 200 True) (ex_request None),
          length (promises (ex_init 200 True)))]"
    using w3 d k j0 by simp
  have b3: "step (ex_env 200 True) ex_leading (Reaction 0) = ex_leading"
    using w4 ll cl pl by simp
  have a1': "dedupMap (cleanup ex_settled ?K 0) = []"
    using a1 by (simp add: ex_settled_fields)
  have a5': "map_option active (stats_deduplication (stats (ex_env 200 True) (drain (ex_env 200 True) ex_settled)))
     = Some 0"
    using a5 d by simp
  have b2': "cleanups (snd (run_enter (ex_env 200 True) (ex_init 200 True) (ex_request None) no_options))
     = [(?K, 0)]"
    using b2 by (simp add: k p0 c0)
  have s1: "map_option active (stats_deduplication (stats (ex_env 200 True) ex_settled)) = Some 1"
    by (simp add: stats_def d ex_settled_fields)
  from c m a1' a2 b1 j0 b2' cs ps a3 cl pl b3 ts s1 a4 a5' show ?thesis
    by blast
qed

end
